(* ===== verification/Prelude.thy ===== *)
theory Prelude
  imports Main "HOL-Library.Word" "HOL-Library.AList" "HOL-Library.Sublist"
begin

text \<open>
  Shared vocabulary of the development.

  Rust values and how they are written here:
  \<^item> \<open>&str\<close>/\<open>String\<close> is \<^typ>\<open>string\<close>, the list of the UTF-8 bytes of the text, so
    \<open>length\<close> is \<open>str::len\<close>.  Every separator the program splits at is an ASCII byte, which
    never occurs inside a multi-byte UTF-8 sequence.  Where the source steps over
    \<open>str::chars\<close> and the difference shows, \<open>utf8_chars\<close> below groups the bytes.
  \<^item> \<open>u64\<close> seconds and \<open>usize\<close> counters are \<^typ>\<open>nat\<close>; \<open>saturating_sub\<close> is then the
    subtraction of \<^typ>\<open>nat\<close> itself.  The bit fields (\<open>u8\<close>) are \<open>8 word\<close>.
  \<^item> \<open>HashMap\<close> is an association list with distinct keys (the order of the list is the
    iteration order, which the program does not rely on), \<open>HashSet\<close> a distinct list.
\<close>

named_theorems rust_str \<open>evaluation rules of the string functions\<close>
named_theorems hmap_simps \<open>laws of the hash map model\<close>

section \<open>Bytes\<close>

abbreviation byte_of :: "char \<Rightarrow> nat" where
  "byte_of c \<equiv> of_char c"

definition is_ascii_digit :: "char \<Rightarrow> bool" where
  "is_ascii_digit c \<longleftrightarrow> 48 \<le> byte_of c \<and> byte_of c \<le> 57"

definition is_ascii_upper :: "char \<Rightarrow> bool" where
  "is_ascii_upper c \<longleftrightarrow> 65 \<le> byte_of c \<and> byte_of c \<le> 90"

definition is_ascii_lower :: "char \<Rightarrow> bool" where
  "is_ascii_lower c \<longleftrightarrow> 97 \<le> byte_of c \<and> byte_of c \<le> 122"

definition is_ascii_alphabetic :: "char \<Rightarrow> bool" where
  "is_ascii_alphabetic c \<longleftrightarrow> is_ascii_upper c \<or> is_ascii_lower c"

definition is_ascii_alphanumeric :: "char \<Rightarrow> bool" where
  "is_ascii_alphanumeric c \<longleftrightarrow> is_ascii_alphabetic c \<or> is_ascii_digit c"

definition ascii_up :: "char \<Rightarrow> char" where
  "ascii_up c = (if is_ascii_lower c then char_of (byte_of c - 32) else c)"

definition ascii_low :: "char \<Rightarrow> char" where
  "ascii_low c = (if is_ascii_upper c then char_of (byte_of c + 32) else c)"

definition is_ascii :: "string \<Rightarrow> bool" where
  "is_ascii s \<longleftrightarrow> (\<forall>c \<in> set s. byte_of c < 128)"

definition to_ascii_uppercase :: "string \<Rightarrow> string" where
  "to_ascii_uppercase s = map ascii_up s"

definition to_ascii_lowercase :: "string \<Rightarrow> string" where
  "to_ascii_lowercase s = map ascii_low s"

definition eq_ignore_ascii_case :: "string \<Rightarrow> string \<Rightarrow> bool" where
  "eq_ignore_ascii_case s t \<longleftrightarrow> to_ascii_lowercase s = to_ascii_lowercase t"

lemma byte_of_less [simp]: "byte_of c < 256"
  by (metis mod_less_divisor of_char_mod_256 zero_less_numeral)

lemma byte_of_char_of [simp]: "n < 256 \<Longrightarrow> byte_of (char_of n) = n"
  by simp

lemma ascii_up_idem [simp]: "ascii_up (ascii_up c) = ascii_up c"
  by (auto simp: ascii_up_def is_ascii_lower_def)

lemma ascii_low_idem [simp]: "ascii_low (ascii_low c) = ascii_low c"
  by (auto simp: ascii_low_def is_ascii_upper_def)

lemma map_ascii_up_idem [simp]: "to_ascii_uppercase (to_ascii_uppercase s) = to_ascii_uppercase s"
  by (simp add: to_ascii_uppercase_def)

lemma to_ascii_lowercase_idem [simp]:
  "to_ascii_lowercase (to_ascii_lowercase s) = to_ascii_lowercase s"
  by (simp add: to_ascii_lowercase_def)

lemma length_to_ascii_lowercase [simp]: "length (to_ascii_lowercase s) = length s"
  by (simp add: to_ascii_lowercase_def)

lemma length_to_ascii_uppercase [simp]: "length (to_ascii_uppercase s) = length s"
  by (simp add: to_ascii_uppercase_def)

lemma eq_ignore_ascii_case_refl [simp]: "eq_ignore_ascii_case s s"
  by (simp add: eq_ignore_ascii_case_def)

lemma eq_ignore_ascii_case_sym: "eq_ignore_ascii_case s t \<Longrightarrow> eq_ignore_ascii_case t s"
  by (simp add: eq_ignore_ascii_case_def)

lemma eq_ignore_ascii_case_trans:
  "eq_ignore_ascii_case s t \<Longrightarrow> eq_ignore_ascii_case t u \<Longrightarrow> eq_ignore_ascii_case s u"
  by (simp add: eq_ignore_ascii_case_def)

text \<open>A byte outside the letters is fixed by both case maps and is not produced by them.\<close>

lemma ascii_up_fixed: "\<not> is_ascii_lower c \<Longrightarrow> ascii_up c = c"
  by (simp add: ascii_up_def)

lemma ascii_low_fixed: "\<not> is_ascii_upper c \<Longrightarrow> ascii_low c = c"
  by (simp add: ascii_low_def)

lemma ascii_up_eq_nonletter:
  assumes "\<not> is_ascii_alphabetic d"
  shows "ascii_up c = d \<longleftrightarrow> c = d"
proof (cases "is_ascii_lower c")
  case True
  then have "byte_of (ascii_up c) = byte_of c - 32" "97 \<le> byte_of c" "byte_of c \<le> 122"
    by (auto simp: ascii_up_def is_ascii_lower_def)
  then have "byte_of (ascii_up c) \<noteq> byte_of d" "byte_of c \<noteq> byte_of d"
    using assms by (auto simp: is_ascii_alphabetic_def is_ascii_upper_def is_ascii_lower_def)
  then show ?thesis by auto
next
  case False
  then show ?thesis by (simp add: ascii_up_fixed)
qed

lemma ascii_low_eq_nonletter:
  assumes "\<not> is_ascii_alphabetic d"
  shows "ascii_low c = d \<longleftrightarrow> c = d"
proof (cases "is_ascii_upper c")
  case True
  then have "byte_of (ascii_low c) = byte_of c + 32" "65 \<le> byte_of c" "byte_of c \<le> 90"
    by (auto simp: ascii_low_def is_ascii_upper_def)
  then have "byte_of (ascii_low c) \<noteq> byte_of d" "byte_of c \<noteq> byte_of d"
    using assms by (auto simp: is_ascii_alphabetic_def is_ascii_upper_def is_ascii_lower_def)
  then show ?thesis by auto
next
  case False
  then show ?thesis by (simp add: ascii_low_fixed)
qed

section \<open>Strings\<close>

text \<open>\<open>str::starts_with\<close>, \<open>str::strip_prefix\<close>, \<open>str::split_once\<close>, \<open>str::split\<close> and
  \<open>str::trim_start_matches\<close> with the patterns the program uses.\<close>

fun strip_prefix :: "string \<Rightarrow> string \<Rightarrow> string option" where
  "strip_prefix [] s = Some s"
| "strip_prefix (p # ps) [] = None"
| "strip_prefix (p # ps) (c # s) = (if p = c then strip_prefix ps s else None)"

definition starts_with :: "string \<Rightarrow> string \<Rightarrow> bool" where
  "starts_with p s \<longleftrightarrow> strip_prefix p s \<noteq> None"

fun split_once :: "char \<Rightarrow> string \<Rightarrow> (string \<times> string) option" where
  "split_once d [] = None"
| "split_once d (c # s) =
     (if c = d then Some ([], s)
      else case split_once d s of None \<Rightarrow> None | Some (a, b) \<Rightarrow> Some (c # a, b))"

fun split_char :: "char \<Rightarrow> string \<Rightarrow> string list" where
  "split_char d [] = [[]]"
| "split_char d (c # s) =
     (if c = d then [] # split_char d s
      else case split_char d s of [] \<Rightarrow> [[c]] | w # ws \<Rightarrow> (c # w) # ws)"

fun join_with :: "string \<Rightarrow> string list \<Rightarrow> string" where
  "join_with sep [] = []"
| "join_with sep [w] = w"
| "join_with sep (w # v # ws) = w @ sep @ join_with sep (v # ws)"

definition trim_start_char :: "char \<Rightarrow> string \<Rightarrow> string" where
  "trim_start_char d s = dropWhile (\<lambda>c. c = d) s"

lemma strip_prefix_Some_iff: "strip_prefix p s = Some r \<longleftrightarrow> s = p @ r"
  by (induction p s rule: strip_prefix.induct) auto

lemma strip_prefix_None_iff: "strip_prefix p s = None \<longleftrightarrow> \<not> prefix p s"
  by (induction p s rule: strip_prefix.induct) auto

lemma starts_with_iff_prefix: "starts_with p s \<longleftrightarrow> prefix p s"
  by (simp add: starts_with_def strip_prefix_None_iff)

lemma split_once_append [simp]: "d \<notin> set a \<Longrightarrow> split_once d (a @ d # b) = Some (a, b)"
  by (induction a) auto

lemma split_once_SomeD: "split_once d s = Some (a, b) \<Longrightarrow> s = a @ d # b \<and> d \<notin> set a"
proof (induction s arbitrary: a)
  case (Cons c s)
  show ?case
  proof (cases "c = d")
    case False
    with Cons.prems obtain a' where "split_once d s = Some (a', b)" "a = c # a'"
      by (auto split: option.splits)
    with Cons.IH False show ?thesis by simp
  qed (use Cons.prems in simp)
qed simp

lemma split_once_Some: "split_once d s = Some (a, b) \<longleftrightarrow> s = a @ d # b \<and> d \<notin> set a"
  using split_once_SomeD by fastforce

lemma split_once_None: "split_once d s = None \<longleftrightarrow> d \<notin> set s"
  by (induction s) (auto split: option.splits)

lemma split_char_neq_Nil [simp]: "split_char d s \<noteq> []"
  by (induction s) (auto split: list.splits)

lemma split_char_no_sep: "w \<in> set (split_char d s) \<Longrightarrow> d \<notin> set w"
  by (induction s arbitrary: w) (auto split: list.splits if_splits)

lemma join_split_char [simp]: "join_with [d] (split_char d s) = s"
proof (induction s)
  case (Cons c s)
  obtain w ws where "split_char d s = w # ws"
    by (meson neq_Nil_conv split_char_neq_Nil)
  with Cons show ?case by (cases ws) auto
qed simp

lemma split_char_fresh: "d \<notin> set w \<Longrightarrow> split_char d w = [w]"
  by (induction w) auto

lemma split_char_append: "d \<notin> set w \<Longrightarrow> split_char d (w @ d # s) = w # split_char d s"
  by (induction w) auto

lemma split_char_join:
  "ws \<noteq> [] \<Longrightarrow> \<forall>w \<in> set ws. d \<notin> set w \<Longrightarrow> split_char d (join_with [d] ws) = ws"
proof (induction ws rule: induct_list012)
  case (3 w v ws)
  then show ?case by (simp add: split_char_append)
qed (auto simp: split_char_fresh)

lemma trim_start_char_Nil [simp]: "trim_start_char d [] = []"
  by (simp add: trim_start_char_def)

lemma trim_start_char_Cons [simp]:
  "trim_start_char d (c # s) = (if c = d then trim_start_char d s else c # s)"
  by (simp add: trim_start_char_def)

lemma trim_start_char_id: "s = [] \<or> hd s \<noteq> d \<Longrightarrow> trim_start_char d s = s"
  by (cases s) auto

lemma hd_trim_start_char: "trim_start_char d s \<noteq> [] \<Longrightarrow> hd (trim_start_char d s) \<noteq> d"
  by (induction s) auto

lemma length_trim_start_char: "length (trim_start_char d s) \<le> length s"
  by (simp add: trim_start_char_def length_dropWhile_le)

lemma is_ascii_to_lowercase [simp]: "is_ascii s \<Longrightarrow> is_ascii (to_ascii_lowercase s)"
proof -
  have "byte_of (ascii_low c) < 128" if "byte_of c < 128" for c
    using that by (auto simp: ascii_low_def is_ascii_upper_def)
  then show "is_ascii s \<Longrightarrow> ?thesis" by (simp add: is_ascii_def to_ascii_lowercase_def list_all_iff)
qed

section \<open>Decimal numbers\<close>

text \<open>\<open>str::parse\<close> for the integer types and \<open>to_string\<close>.  A number is written without leading
  zeros; \<open>{:0w}\<close> pads it on the left.  Parsing accepts one leading \<open>+\<close> and fails on an empty digit
  string, on any other byte, and when the number does not fit the type.\<close>

definition digit_char :: "nat \<Rightarrow> char" where
  "digit_char d = char_of (48 + d)"

definition digit_val :: "char \<Rightarrow> nat" where
  "digit_val c = byte_of c - 48"

fun show_nat :: "nat \<Rightarrow> string" where
  "show_nat n = (if n < 10 then [digit_char n] else show_nat (n div 10) @ [digit_char (n mod 10)])"

declare show_nat.simps [simp del]

definition show_pad :: "nat \<Rightarrow> nat \<Rightarrow> string" where
  "show_pad w n = replicate (w - length (show_nat n)) (CHR ''0'') @ show_nat n"

definition digits_val :: "string \<Rightarrow> nat" where
  "digits_val s = foldl (\<lambda>n c. 10 * n + digit_val c) 0 s"

definition parse_digits :: "string \<Rightarrow> nat option" where
  "parse_digits s = (if s \<noteq> [] \<and> list_all is_ascii_digit s then Some (digits_val s) else None)"

definition parse_uint :: "nat \<Rightarrow> string \<Rightarrow> nat option" where
  "parse_uint w s =
     (case parse_digits (case strip_prefix ''+'' s of Some r \<Rightarrow> r | None \<Rightarrow> s) of
        Some n \<Rightarrow> if n < 2 ^ w then Some n else None
      | None \<Rightarrow> None)"

definition parse_int :: "nat \<Rightarrow> string \<Rightarrow> int option" where
  "parse_int w s =
     (case strip_prefix ''-'' s of
        Some r \<Rightarrow> (case parse_digits r of
                      Some n \<Rightarrow> if n \<le> 2 ^ (w - 1) then Some (- int n) else None
                    | None \<Rightarrow> None)
      | None \<Rightarrow> (case parse_digits (case strip_prefix ''+'' s of Some r \<Rightarrow> r | None \<Rightarrow> s) of
                    Some n \<Rightarrow> if n < 2 ^ (w - 1) then Some (int n) else None
                  | None \<Rightarrow> None))"

lemma byte_digit_char [simp]: "d < 10 \<Longrightarrow> byte_of (digit_char d) = 48 + d"
  by (simp add: digit_char_def)

lemma digit_char_digit [simp]: "d < 10 \<Longrightarrow> is_ascii_digit (digit_char d)"
  by (simp add: is_ascii_digit_def)

lemma digit_val_char [simp]: "d < 10 \<Longrightarrow> digit_val (digit_char d) = d"
  by (simp add: digit_val_def)

lemma digit_char_eval:
  "digit_char 0 = CHR ''0''" "digit_char 1 = CHR ''1''" "digit_char 2 = CHR ''2''"
  "digit_char 3 = CHR ''3''" "digit_char 4 = CHR ''4''" "digit_char 5 = CHR ''5''"
  "digit_char 6 = CHR ''6''" "digit_char 7 = CHR ''7''" "digit_char 8 = CHR ''8''"
  "digit_char 9 = CHR ''9''" "digit_char (Suc 0) = CHR ''1''"
  by code_simp+

lemma digits_val_snoc [simp]: "digits_val (s @ [c]) = 10 * digits_val s + digit_val c"
  by (simp add: digits_val_def)

lemma digits_val_Nil [simp]: "digits_val [] = 0"
  by (simp add: digits_val_def)

lemma show_nat_neq_Nil [simp]: "show_nat n \<noteq> []"
  by (subst show_nat.simps) simp

lemma show_nat_digits: "list_all is_ascii_digit (show_nat n)"
  by (induction n rule: show_nat.induct, subst show_nat.simps) (simp add: list_all_append)

lemma digits_val_show_nat [simp]: "digits_val (show_nat n) = n"
proof (induction n rule: show_nat.induct)
  case (1 n)
  show ?case
  proof (cases "n < 10")
    case True
    then show ?thesis by (subst show_nat.simps) (simp add: digits_val_def)
  next
    case False
    then show ?thesis using 1 by (subst show_nat.simps) simp
  qed
qed

lemma digits_val_pad [simp]: "digits_val (replicate k (CHR ''0'') @ s) = digits_val s"
proof -
  have "foldl (\<lambda>n c. 10 * n + digit_val c) 0 (replicate k (CHR ''0'')) = 0"
    by (induction k) (simp_all add: digit_val_def)
  then show ?thesis by (simp add: digits_val_def)
qed

lemma parse_digits_show [simp]: "parse_digits (show_nat n) = Some n"
  by (simp add: parse_digits_def show_nat_digits)

lemma parse_digits_pad [simp]: "parse_digits (show_pad w n) = Some n"
proof -
  have "is_ascii_digit (CHR ''0'')" by code_simp
  then have "list_all is_ascii_digit (replicate k (CHR ''0''))" for k by (simp add: list_all_iff)
  then show ?thesis by (simp add: parse_digits_def show_pad_def show_nat_digits)
qed

lemma show_pad_digits: "list_all is_ascii_digit (show_pad w n) \<and> show_pad w n \<noteq> []"
  using parse_digits_pad [of w n] by (auto simp: parse_digits_def split: if_splits)

lemma no_sign:
  assumes "list_all is_ascii_digit s" and "\<not> is_ascii_digit c"
  shows "strip_prefix [c] s = None"
  using assms by (cases s) auto

lemma not_digit_sign [simp]: "\<not> is_ascii_digit (CHR ''+'')" "\<not> is_ascii_digit (CHR ''-'')"
  by code_simp+

lemma parse_uint_show [simp]: "n < 2 ^ w \<Longrightarrow> parse_uint w (show_nat n) = Some n"
  by (simp add: parse_uint_def no_sign show_nat_digits)

lemma parse_uint_bound: "parse_uint w s = Some n \<Longrightarrow> n < 2 ^ w"
  by (auto simp: parse_uint_def split: option.splits if_splits)

lemma parse_int_pad: "n < 2 ^ (w - 1) \<Longrightarrow> parse_int w (show_pad k n) = Some (int n)"
  using show_pad_digits [of k n] by (simp add: parse_int_def no_sign)

section \<open>Characters of a UTF-8 string\<close>

text \<open>\<open>str::chars\<close>: a leading byte with the continuation bytes that follow it.  A Rust string is
  always valid UTF-8, so every group is the encoding of one \<open>char\<close>.\<close>

definition is_cont_byte :: "char \<Rightarrow> bool" where
  "is_cont_byte c \<longleftrightarrow> 128 \<le> byte_of c \<and> byte_of c < 192"

lemma length_dropWhile_Suc [termination_simp]: "length (dropWhile P xs) < Suc (length xs)"
  using length_dropWhile_le [of P xs] by simp

fun utf8_chars :: "string \<Rightarrow> string list" where
  "utf8_chars [] = []"
| "utf8_chars (c # cs) = (c # takeWhile is_cont_byte cs) # utf8_chars (dropWhile is_cont_byte cs)"

lemma utf8_chars_ascii: "is_ascii s \<Longrightarrow> utf8_chars s = map (\<lambda>c. [c]) s"
proof (induction s rule: utf8_chars.induct)
  case (2 c cs)
  then have "takeWhile is_cont_byte cs = []" "dropWhile is_cont_byte cs = cs"
    by (cases cs; auto simp: is_ascii_def is_cont_byte_def)+
  then show ?case using 2 by (simp add: is_ascii_def)
qed simp

lemma concat_utf8_chars [simp]: "concat (utf8_chars s) = s"
  by (induction s rule: utf8_chars.induct) simp_all

text \<open>A Rust \<open>char\<close> is written as the string of its UTF-8 bytes.\<close>

type_synonym uchar = string

text \<open>\<open>char::is_whitespace\<close>: the code points with the Unicode property \<open>White_Space\<close>.\<close>

definition is_whitespace :: "uchar \<Rightarrow> bool" where
  "is_whitespace c \<longleftrightarrow>
     (case map byte_of c of
        [b] \<Rightarrow> 9 \<le> b \<and> b \<le> 13 \<or> b = 32
      | [b0, b1] \<Rightarrow> b0 = 0xC2 \<and> (b1 = 0x85 \<or> b1 = 0xA0)
      | [b0, b1, b2] \<Rightarrow>
          b0 = 0xE1 \<and> b1 = 0x9A \<and> b2 = 0x80
          \<or> b0 = 0xE2 \<and> b1 = 0x80 \<and> (0x80 \<le> b2 \<and> b2 \<le> 0x8A \<or> b2 = 0xA8 \<or> b2 = 0xA9 \<or> b2 = 0xAF)
          \<or> b0 = 0xE2 \<and> b1 = 0x81 \<and> b2 = 0x9F
          \<or> b0 = 0xE3 \<and> b1 = 0x80 \<and> b2 = 0x80
      | _ \<Rightarrow> False)"

text \<open>\<open>str::split_whitespace\<close>: the maximal runs of other characters.\<close>

fun ws_words :: "uchar list \<Rightarrow> string list" where
  "ws_words [] = []"
| "ws_words (c # cs) =
     (if is_whitespace c then ws_words cs
      else concat (c # takeWhile (\<lambda>x. \<not> is_whitespace x) cs)
           # ws_words (dropWhile (\<lambda>x. \<not> is_whitespace x) cs))"

definition split_whitespace :: "string \<Rightarrow> string list" where
  "split_whitespace s = ws_words (utf8_chars s)"

text \<open>\<open>Iterator::position\<close>.\<close>

fun position :: "('a \<Rightarrow> bool) \<Rightarrow> 'a list \<Rightarrow> nat option" where
  "position P [] = None"
| "position P (x # xs) = (if P x then Some 0 else map_option Suc (position P xs))"

lemma position_SomeD: "position P xs = Some i \<Longrightarrow> i < length xs \<and> P (xs ! i)"
  by (induction xs arbitrary: i) (auto split: if_splits)

lemma position_None_iff: "position P xs = None \<longleftrightarrow> (\<forall>x \<in> set xs. \<not> P x)"
  by (induction xs) auto

text \<open>The first character of a string, \<open>chars().next()\<close>.\<close>

definition first_char :: "string \<Rightarrow> uchar option" where
  "first_char s = (case utf8_chars s of [] \<Rightarrow> None | c # _ \<Rightarrow> Some c)"

section \<open>Hash maps\<close>

text \<open>A \<open>HashMap\<close> is an association list with distinct keys.  \<open>get\<close> is \<^const>\<open>map_of\<close>, \<open>insert\<close>
  \<^const>\<open>AList.update\<close>, \<open>remove\<close> \<^const>\<open>AList.delete\<close>; \<open>map_key\<close> is \<open>get_mut\<close> with an assignment
  through the reference and \<open>retain_vals\<close> is \<open>retain\<close> on the values.\<close>

definition map_key :: "'k \<Rightarrow> ('v \<Rightarrow> 'v) \<Rightarrow> ('k \<times> 'v) list \<Rightarrow> ('k \<times> 'v) list" where
  "map_key k f m = map (\<lambda>(k', v). (k', if k' = k then f v else v)) m"

definition retain_vals :: "('v \<Rightarrow> bool) \<Rightarrow> ('k \<times> 'v) list \<Rightarrow> ('k \<times> 'v) list" where
  "retain_vals P m = filter (\<lambda>kv. P (snd kv)) m"

text \<open>A \<open>HashSet\<close> is a list without repetitions: \<open>insert\<close> is \<^const>\<open>List.insert\<close>.\<close>

definition set_remove :: "'a \<Rightarrow> 'a list \<Rightarrow> 'a list" where
  "set_remove x xs = filter (\<lambda>y. y \<noteq> x) xs"

lemma set_set_remove [simp]: "set (set_remove x xs) = set xs - {x}"
  by (auto simp: set_remove_def)

lemma distinct_set_remove [simp]: "distinct xs \<Longrightarrow> distinct (set_remove x xs)"
  by (simp add: set_remove_def)

text \<open>The laws a client of a hash map relies on.\<close>

locale hash_map =
  fixes get :: "'m \<Rightarrow> 'k \<Rightarrow> 'v option"
    and insert :: "'k \<Rightarrow> 'v \<Rightarrow> 'm \<Rightarrow> 'm"
    and remove :: "'k \<Rightarrow> 'm \<Rightarrow> 'm"
    and modify :: "'k \<Rightarrow> ('v \<Rightarrow> 'v) \<Rightarrow> 'm \<Rightarrow> 'm"
    and retain :: "('v \<Rightarrow> bool) \<Rightarrow> 'm \<Rightarrow> 'm"
    and wf :: "'m \<Rightarrow> bool"
  assumes get_insert: "get (insert k v m) k' = (if k' = k then Some v else get m k')"
    and get_remove: "wf m \<Longrightarrow> get (remove k m) k' = (if k' = k then None else get m k')"
    and get_modify: "get (modify k f m) k' = (if k' = k then map_option f (get m k) else get m k')"
    and get_retain: "wf m \<Longrightarrow> get (retain P m) k = (case get m k of Some v \<Rightarrow> if P v then Some v else None | None \<Rightarrow> None)"
    and wf_insert: "wf m \<Longrightarrow> wf (insert k v m)"
    and wf_remove: "wf m \<Longrightarrow> wf (remove k m)"
    and wf_modify: "wf m \<Longrightarrow> wf (modify k f m)"
    and wf_retain: "wf m \<Longrightarrow> wf (retain P m)"
begin

text \<open>What a table satisfies entry by entry is kept by every operation that keeps it on its entry.\<close>

definition all_entries :: "('k \<Rightarrow> 'v \<Rightarrow> bool) \<Rightarrow> 'm \<Rightarrow> bool" where
  "all_entries Q m \<longleftrightarrow> (\<forall>k v. get m k = Some v \<longrightarrow> Q k v)"

lemma all_entries_insert: "all_entries Q m \<Longrightarrow> Q k v \<Longrightarrow> all_entries Q (insert k v m)"
  by (auto simp: all_entries_def get_insert split: if_splits)

lemma all_entries_modify:
  "all_entries Q m \<Longrightarrow> (\<And>v. get m k = Some v \<Longrightarrow> Q k v \<Longrightarrow> Q k (f v)) \<Longrightarrow> all_entries Q (modify k f m)"
  by (auto simp: all_entries_def get_modify split: if_splits)

lemma all_entries_remove: "wf m \<Longrightarrow> all_entries Q m \<Longrightarrow> all_entries Q (remove k m)"
  by (auto simp: all_entries_def get_remove split: if_splits)

lemma all_entries_retain: "wf m \<Longrightarrow> all_entries Q m \<Longrightarrow> all_entries (\<lambda>k v. Q k v \<and> P v) (retain P m)"
  by (auto simp: all_entries_def get_retain split: if_splits option.splits)

lemma remove_insert_get: "wf m \<Longrightarrow> get (insert k v (remove k' m)) k = Some v"
  by (simp add: get_insert)

end

lemma map_of_map_key: "map_of (map_key k f m) k' = (if k' = k then map_option f (map_of m k) else map_of m k')"
  by (induction m) (auto simp: map_key_def)

lemma keys_map_key [simp]: "map fst (map_key k f m) = map fst m"
  by (induction m) (auto simp: map_key_def)

lemma map_of_retain:
  "distinct (map fst m) \<Longrightarrow>
     map_of (retain_vals P m) k = (case map_of m k of Some v \<Rightarrow> if P v then Some v else None | None \<Rightarrow> None)"
  by (induction m) (auto simp: retain_vals_def dest: map_of_SomeD split: option.splits, force+)

lemma distinct_retain [simp]: "distinct (map fst m) \<Longrightarrow> distinct (map fst (retain_vals P m))"
  by (induction m) (auto simp: retain_vals_def)

interpretation hmap: hash_map map_of AList.update AList.delete map_key retain_vals "\<lambda>m. distinct (map fst m)"
proof unfold_locales
  fix m :: "('a \<times> 'b) list" and k k' f P
  show "map_of (AList.update k v m) k' = (if k' = k then Some v else map_of m k')" for v
    by (simp add: update_conv')
  show "map_of (AList.delete k m) k' = (if k' = k then None else map_of m k')"
    by (simp add: delete_conv')
qed (simp_all add: map_of_map_key map_of_retain distinct_update distinct_delete)

declare update_conv' [hmap_simps] delete_conv' [hmap_simps] map_of_map_key [hmap_simps] map_of_retain [hmap_simps]

text \<open>Machine arithmetic: \<open>as u32\<close> and addition of \<open>u64\<close> in a release build wrap around.\<close>

definition as_u32 :: "nat \<Rightarrow> nat" where
  "as_u32 n = n mod 2 ^ 32"

definition add_u64 :: "nat \<Rightarrow> nat \<Rightarrow> nat" where
  "add_u64 a b = (a + b) mod 2 ^ 64"

lemma as_u32_small [simp]: "n < 2 ^ 32 \<Longrightarrow> as_u32 n = n"
  by (simp add: as_u32_def)

lemma add_u64_small [simp]: "a + b < 2 ^ 64 \<Longrightarrow> add_u64 a b = a + b"
  by (simp add: add_u64_def)

end
