(* ===== verification/Member.thy ===== *)
theory Member
  imports Prelude
begin

text \<open>
  Channel members of \<open>src/channels.rs\<close>: the prefix modes of one member (\<open>+q +a +o +h +v\<close> and the
  network-staff prefix \<open>+y\<close>) as a bit field, the rank ladder built from them, and the
  config-defined prefixes of \<open>src/modules/customprefix.rs\<close>.

  The daemon keeps the prefix configuration in a process-wide cell that is written once at start;
  here it is the argument \<open>cfg\<close> of the operations that read it.
\<close>

unbundle bit_operations_syntax

section \<open>Config-defined prefixes\<close>

record prefix_def =
  pd_letter :: uchar
  pd_sigil :: string
  pd_rank :: nat
  pd_ranktoset :: nat
  pd_ranktounset :: nat
  pd_depriv :: bool

record prefix_cfg =
  sigils :: "string list"
  tier_ranktoset :: "nat option list"
  tier_ranktounset :: "nat option list"
  tier_depriv :: "bool list"
  custom :: "prefix_def list"

definition tier_names :: "string list" where
  "tier_names = [''oper'', ''founder'', ''admin'', ''op'', ''halfop'', ''voice'']"

definition tier_letters :: "uchar list" where
  "tier_letters = [''y'', ''q'', ''a'', ''o'', ''h'', ''v'']"

definition default_sigils :: "string list" where
  "default_sigils = [''!'', ''~'', ''&'', ''@'', ''%'', ''+'']"

definition tier_ranks :: "nat list" where
  "tier_ranks = [60, 50, 40, 30, 20, 10]"

definition is_builtin_letter :: "uchar \<Rightarrow> bool" where
  "is_builtin_letter c \<longleftrightarrow> c \<in> set tier_letters"

definition parse_rank :: "string \<Rightarrow> nat option" where
  "parse_rank v =
     (case parse_uint 8 v of
        Some n \<Rightarrow> Some n
      | None \<Rightarrow> map_option (\<lambda>i. tier_ranks ! i) (position (\<lambda>t. eq_ignore_ascii_case t v) tier_names))"

definition yesish :: "string \<Rightarrow> bool" where
  "yesish v \<longleftrightarrow> to_ascii_lowercase v \<notin> {''off'', ''no'', ''false'', ''0''}"

text \<open>One \<open>customprefix\<close> line: the options of a built-in tier, or the fields of a new prefix.\<close>

definition tier_option :: "nat \<Rightarrow> string \<Rightarrow> prefix_cfg \<Rightarrow> prefix_cfg" where
  "tier_option i tok cfg =
     (case split_once (CHR ''='') tok of
        Some (k, v) \<Rightarrow>
          if k = ''ranktoset'' then cfg\<lparr>tier_ranktoset := (tier_ranktoset cfg)[i := parse_rank v]\<rparr>
          else if k = ''ranktounset'' then cfg\<lparr>tier_ranktounset := (tier_ranktounset cfg)[i := parse_rank v]\<rparr>
          else if k = ''depriv'' then cfg\<lparr>tier_depriv := (tier_depriv cfg)[i := yesish v]\<rparr>
          else cfg
      | None \<Rightarrow> (case first_char tok of
                    Some c \<Rightarrow> cfg\<lparr>sigils := (sigils cfg)[i := c]\<rparr>
                  | None \<Rightarrow> cfg))"

record new_prefix =
  np_letter :: "uchar option"
  np_sigil :: "uchar option"
  np_rank :: nat
  np_rts :: "nat option"
  np_rtu :: "nat option"
  np_depriv :: bool

definition prefix_option :: "string \<Rightarrow> new_prefix \<Rightarrow> new_prefix" where
  "prefix_option tok p =
     (case split_once (CHR ''='') tok of
        Some (k, v) \<Rightarrow>
          if k = ''letter'' then p\<lparr>np_letter := first_char v\<rparr>
          else if k = ''prefix'' then p\<lparr>np_sigil := first_char v\<rparr>
          else if k = ''rank'' then p\<lparr>np_rank := (case parse_rank v of Some n \<Rightarrow> n | None \<Rightarrow> 1)\<rparr>
          else if k = ''ranktoset'' then p\<lparr>np_rts := parse_rank v\<rparr>
          else if k = ''ranktounset'' then p\<lparr>np_rtu := parse_rank v\<rparr>
          else if k = ''depriv'' then p\<lparr>np_depriv := yesish v\<rparr>
          else p
      | None \<Rightarrow> p)"

text \<open>\<open>reserved\<close> is \<open>crate::mode::chan_mode(l).is_some()\<close>, the letters of the registered modes.\<close>

definition add_prefix :: "(uchar \<Rightarrow> bool) \<Rightarrow> new_prefix \<Rightarrow> prefix_cfg \<Rightarrow> prefix_cfg" where
  "add_prefix reserved p cfg =
     (case (np_letter p, np_sigil p) of
        (Some l, Some sy) \<Rightarrow>
          if is_builtin_letter l \<or> reserved l \<or> list_ex (\<lambda>d. pd_letter d = l) (custom cfg) then cfg
          else
            let ranktoset = (case np_rts p of Some r \<Rightarrow> r | None \<Rightarrow> np_rank p) in
            cfg\<lparr>custom := custom cfg @ [\<lparr>pd_letter = l, pd_sigil = sy, pd_rank = np_rank p,
                 pd_ranktoset = ranktoset,
                 pd_ranktounset = (case np_rtu p of Some r \<Rightarrow> r | None \<Rightarrow> ranktoset),
                 pd_depriv = np_depriv p\<rparr>]\<rparr>
      | _ \<Rightarrow> cfg)"

definition prefix_line :: "(uchar \<Rightarrow> bool) \<Rightarrow> string \<Rightarrow> prefix_cfg \<Rightarrow> prefix_cfg" where
  "prefix_line reserved line cfg =
     (case split_whitespace line of
        [] \<Rightarrow> cfg
      | name # toks \<Rightarrow>
          (case position (\<lambda>t. eq_ignore_ascii_case t name) tier_names of
             Some i \<Rightarrow> fold (tier_option i) toks cfg
           | None \<Rightarrow>
               add_prefix reserved
                 (fold prefix_option toks
                    \<lparr>np_letter = None, np_sigil = None, np_rank = 1, np_rts = None, np_rtu = None,
                     np_depriv = True\<rparr>) cfg))"

definition default_prefix_cfg :: prefix_cfg where
  "default_prefix_cfg = \<lparr>sigils = default_sigils, tier_ranktoset = replicate 6 None,
     tier_ranktounset = replicate 6 None, tier_depriv = replicate 6 True, custom = []\<rparr>"

definition prefix_init :: "(uchar \<Rightarrow> bool) \<Rightarrow> string list \<Rightarrow> prefix_cfg" where
  "prefix_init reserved lines = fold (prefix_line reserved) lines default_prefix_cfg"

definition sigil :: "prefix_cfg \<Rightarrow> nat \<Rightarrow> string" where
  "sigil cfg i = sigils cfg ! i"

definition def_for_letter :: "prefix_cfg \<Rightarrow> uchar \<Rightarrow> prefix_def option" where
  "def_for_letter cfg c = find (\<lambda>d. pd_letter d = c) (custom cfg)"

definition builtin_index :: "uchar \<Rightarrow> nat option" where
  "builtin_index letter = position (\<lambda>l. l = letter) tier_letters"

definition rank_to_set :: "prefix_cfg \<Rightarrow> uchar \<Rightarrow> nat option" where
  "rank_to_set cfg letter =
     (case builtin_index letter of
        Some i \<Rightarrow> tier_ranktoset cfg ! i
      | None \<Rightarrow> map_option pd_ranktoset (def_for_letter cfg letter))"

definition rank_to_unset :: "prefix_cfg \<Rightarrow> uchar \<Rightarrow> nat option" where
  "rank_to_unset cfg letter =
     (case builtin_index letter of
        Some i \<Rightarrow> tier_ranktounset cfg ! i
      | None \<Rightarrow> map_option pd_ranktounset (def_for_letter cfg letter))"

definition can_depriv :: "prefix_cfg \<Rightarrow> uchar \<Rightarrow> bool" where
  "can_depriv cfg letter =
     (case builtin_index letter of
        Some i \<Rightarrow> tier_depriv cfg ! i
      | None \<Rightarrow> (case def_for_letter cfg letter of Some d \<Rightarrow> pd_depriv d | None \<Rightarrow> True))"

text \<open>\<open>sort_by(|a, b| b.0.cmp(&a.0))\<close>: a stable sort, highest rank first.\<close>

definition by_rank_desc :: "(nat \<times> 'a) list \<Rightarrow> (nat \<times> 'a) list" where
  "by_rank_desc v = sort_key (\<lambda>x. - int (fst x)) v"

definition prefix_isupport :: "prefix_cfg \<Rightarrow> bool \<Rightarrow> string" where
  "prefix_isupport cfg include_oper =
     (let start = (if include_oper then 0 else 1);
          tiers = map (\<lambda>i. (tier_ranks ! i, tier_letters ! i, sigil cfg i)) [start..<6];
          customs = map (\<lambda>d. (pd_rank d, pd_letter d, pd_sigil d)) (custom cfg);
          sorted = by_rank_desc (tiers @ customs)
      in ''('' @ concat (map (\<lambda>x. fst (snd x)) sorted) @ '')'' @ concat (map (\<lambda>x. snd (snd x)) sorted))"

section \<open>Members\<close>

record member =
  pfx_bits :: "8 word"
  custom_prefixes :: "uchar list"
  joined :: nat
  recent_msgs :: "string list"
  slow_hits :: "nat list"
  hidden :: bool

definition default_member :: member where
  "default_member = \<lparr>pfx_bits = 0, custom_prefixes = [], joined = 0, recent_msgs = [], slow_hits = [],
     hidden = False\<rparr>"

definition PFX_OPER :: "8 word" where "PFX_OPER = 32"
definition PFX_OWNER :: "8 word" where "PFX_OWNER = 16"
definition PFX_ADMIN :: "8 word" where "PFX_ADMIN = 8"
definition PFX_OP :: "8 word" where "PFX_OP = 4"
definition PFX_HALFOP :: "8 word" where "PFX_HALFOP = 2"
definition PFX_VOICE :: "8 word" where "PFX_VOICE = 1"

definition RANK_OPER :: nat where "RANK_OPER = 60"
definition RANK_OWNER :: nat where "RANK_OWNER = 50"
definition RANK_ADMIN :: nat where "RANK_ADMIN = 40"
definition RANK_OP :: nat where "RANK_OP = 30"
definition RANK_HALFOP :: nat where "RANK_HALFOP = 20"
definition RANK_VOICE :: nat where "RANK_VOICE = 10"

lemmas pfx_defs = PFX_OPER_def PFX_OWNER_def PFX_ADMIN_def PFX_OP_def PFX_HALFOP_def PFX_VOICE_def
lemmas rank_defs = RANK_OPER_def RANK_OWNER_def RANK_ADMIN_def RANK_OP_def RANK_HALFOP_def RANK_VOICE_def

definition has_bit :: "member \<Rightarrow> 8 word \<Rightarrow> bool" where
  "has_bit m b \<longleftrightarrow> pfx_bits m AND b \<noteq> 0"

definition set_bit :: "8 word \<Rightarrow> bool \<Rightarrow> member \<Rightarrow> member" where
  "set_bit b on m = (if on then m\<lparr>pfx_bits := pfx_bits m OR b\<rparr> else m\<lparr>pfx_bits := pfx_bits m AND NOT b\<rparr>)"

definition builtin_rank :: "member \<Rightarrow> nat" where
  "builtin_rank m =
     (if has_bit m PFX_OPER then RANK_OPER
      else if has_bit m PFX_OWNER then RANK_OWNER
      else if has_bit m PFX_ADMIN then RANK_ADMIN
      else if has_bit m PFX_OP then RANK_OP
      else if has_bit m PFX_HALFOP then RANK_HALFOP
      else if has_bit m PFX_VOICE then RANK_VOICE
      else 0)"

definition member_rank :: "prefix_cfg \<Rightarrow> member \<Rightarrow> nat" where
  "member_rank cfg m =
     fold (\<lambda>c r. case def_for_letter cfg c of Some d \<Rightarrow> max r (pd_rank d) | None \<Rightarrow> r)
       (custom_prefixes m) (builtin_rank m)"

definition held :: "prefix_cfg \<Rightarrow> member \<Rightarrow> (nat \<times> string) list" where
  "held cfg m =
     (let tiers = [(has_bit m PFX_OPER, RANK_OPER, 0), (has_bit m PFX_OWNER, RANK_OWNER, 1),
                   (has_bit m PFX_ADMIN, RANK_ADMIN, 2), (has_bit m PFX_OP, RANK_OP, 3),
                   (has_bit m PFX_HALFOP, RANK_HALFOP, 4), (has_bit m PFX_VOICE, RANK_VOICE, 5)];
          v = map (\<lambda>(on, r, i). (r, sigil cfg i)) (filter fst tiers);
          w = List.map_filter (\<lambda>c. map_option (\<lambda>d. (pd_rank d, pd_sigil d)) (def_for_letter cfg c))
                (custom_prefixes m)
      in by_rank_desc (v @ w))"

definition prefix_char :: "prefix_cfg \<Rightarrow> member \<Rightarrow> string" where
  "prefix_char cfg m =
     (if custom_prefixes m = [] then
        (if has_bit m PFX_OPER then sigil cfg 0
         else if has_bit m PFX_OWNER then sigil cfg 1
         else if has_bit m PFX_ADMIN then sigil cfg 2
         else if has_bit m PFX_OP then sigil cfg 3
         else if has_bit m PFX_HALFOP then sigil cfg 4
         else if has_bit m PFX_VOICE then sigil cfg 5
         else '''')
      else case held cfg m of [] \<Rightarrow> '''' | (_, s) # _ \<Rightarrow> s)"

definition clear_status :: "member \<Rightarrow> member" where
  "clear_status m =
     m\<lparr>pfx_bits := pfx_bits m AND NOT (PFX_OWNER OR PFX_ADMIN OR PFX_OP OR PFX_HALFOP OR PFX_VOICE)\<rparr>"

definition set_prefix :: "prefix_cfg \<Rightarrow> uchar \<Rightarrow> bool \<Rightarrow> member \<Rightarrow> member" where
  "set_prefix cfg letter on m =
     (if letter = ''y'' then set_bit PFX_OPER on m
      else if letter = ''q'' then set_bit PFX_OWNER on m
      else if letter = ''a'' then set_bit PFX_ADMIN on m
      else if letter = ''o'' then set_bit PFX_OP on m
      else if letter = ''h'' then set_bit PFX_HALFOP on m
      else if letter = ''v'' then set_bit PFX_VOICE on m
      else if def_for_letter cfg letter \<noteq> None then
        m\<lparr>custom_prefixes := filter (\<lambda>c. c \<noteq> letter) (custom_prefixes m) @ (if on then [letter] else [])\<rparr>
      else m)"

definition all_prefixes :: "prefix_cfg \<Rightarrow> member \<Rightarrow> string" where
  "all_prefixes cfg m =
     (if custom_prefixes m = [] then
        concat (map (\<lambda>(on, i). if on then sigil cfg i else '''')
          [(has_bit m PFX_OPER, 0), (has_bit m PFX_OWNER, 1), (has_bit m PFX_ADMIN, 2),
           (has_bit m PFX_OP, 3), (has_bit m PFX_HALFOP, 4), (has_bit m PFX_VOICE, 5)])
      else concat (map snd (held cfg m)))"

definition mode_letters :: "prefix_cfg \<Rightarrow> member \<Rightarrow> uchar list" where
  "mode_letters cfg m =
     map snd (filter fst
       [(has_bit m PFX_OPER, ''y''), (has_bit m PFX_OWNER, ''q''), (has_bit m PFX_ADMIN, ''a''),
        (has_bit m PFX_OP, ''o''), (has_bit m PFX_HALFOP, ''h''), (has_bit m PFX_VOICE, ''v'')])
     @ filter (\<lambda>c. def_for_letter cfg c \<noteq> None) (custom_prefixes m)"

section \<open>The rank ladder\<close>

lemma fold_max_rank: "fold max xs (r::nat) = Max (set (r # xs))"
  by (rule Max.set_eq_fold [symmetric])

lemma fold_custom_rank:
  "fold (\<lambda>c r. case def_for_letter cfg c of Some d \<Rightarrow> max r (pd_rank d) | None \<Rightarrow> r) cs r
     = fold max (map fst (List.map_filter
         (\<lambda>c. map_option (\<lambda>d. (pd_rank d, pd_sigil d)) (def_for_letter cfg c)) cs)) r"
  by (induction cs arbitrary: r) (auto simp: List.map_filter_simps max.commute split: option.split)

text \<open>The built-in prefixes of a member with their ranks, as \<open>held\<close> collects them before sorting.\<close>

definition builtin_held :: "prefix_cfg \<Rightarrow> member \<Rightarrow> (nat \<times> string) list" where
  "builtin_held cfg m = map (\<lambda>(on, r, i). (r, sigil cfg i)) (filter fst
     [(has_bit m PFX_OPER, RANK_OPER, 0), (has_bit m PFX_OWNER, RANK_OWNER, 1),
      (has_bit m PFX_ADMIN, RANK_ADMIN, 2), (has_bit m PFX_OP, RANK_OP, 3),
      (has_bit m PFX_HALFOP, RANK_HALFOP, 4), (has_bit m PFX_VOICE, RANK_VOICE, 5)])"

definition custom_held :: "prefix_cfg \<Rightarrow> member \<Rightarrow> (nat \<times> string) list" where
  "custom_held cfg m = List.map_filter
     (\<lambda>c. map_option (\<lambda>d. (pd_rank d, pd_sigil d)) (def_for_letter cfg c)) (custom_prefixes m)"

lemma held_split: "held cfg m = by_rank_desc (builtin_held cfg m @ custom_held cfg m)"
  by (simp add: held_def builtin_held_def custom_held_def Let_def)

lemma set_by_rank_desc [simp]: "set (by_rank_desc v) = set v"
  by (simp add: by_rank_desc_def)

lemma hd_by_rank_desc: "x \<in> set (by_rank_desc v) \<Longrightarrow> fst x \<le> fst (hd (by_rank_desc v))"
proof -
  have "sorted (map (\<lambda>x. - int (fst x)) (by_rank_desc v))" by (simp add: by_rank_desc_def)
  then show "x \<in> set (by_rank_desc v) \<Longrightarrow> ?thesis"
    by (cases "by_rank_desc v") (auto simp del: set_by_rank_desc)
qed

lemma builtin_rank_max: "builtin_rank m = fold max (map fst (builtin_held cfg m)) 0"
  by (simp add: builtin_rank_def builtin_held_def rank_defs)

lemma builtin_held_sorted: "by_rank_desc (builtin_held cfg m) = builtin_held cfg m"
  unfolding by_rank_desc_def
  by (rule sort_key_id_if_sorted) (simp add: builtin_held_def rank_defs)

lemma member_rank_max: "member_rank cfg m = Max (insert 0 (fst ` set (held cfg m)))"
proof -
  have "member_rank cfg m = fold max (map fst (custom_held cfg m)) (builtin_rank m)"
    by (simp add: member_rank_def fold_custom_rank custom_held_def)
  also have "\<dots> = fold max (map fst (builtin_held cfg m @ custom_held cfg m)) 0"
    by (simp add: builtin_rank_max [of m cfg])
  also have "\<dots> = Max (insert 0 (fst ` set (held cfg m)))"
    unfolding fold_max_rank held_split set_by_rank_desc by (simp add: image_Un)
  finally show ?thesis .
qed

text \<open>C27: The rank every permission check uses is the rank of the prefix the member is shown with:
  the first entry of the sorted list of prefixes held, built-in and config-defined together.\<close>

theorem member_rank_is_held_first:
  "member_rank cfg m = (case held cfg m of [] \<Rightarrow> 0 | (r, _) # _ \<Rightarrow> r)"
proof (cases "held cfg m")
  case (Cons x xs)
  have "fst y \<le> fst x" if "y \<in> set (held cfg m)" for y
    using hd_by_rank_desc that Cons unfolding held_split by fastforce
  then have "Max (insert 0 (fst ` set (held cfg m))) = fst x"
    using Cons by (intro Max_eqI) auto
  then show ?thesis using Cons by (simp add: member_rank_max split: prod.split)
qed (simp add: member_rank_max)

text \<open>C28: The two fast paths for members without config-defined prefixes, in \<open>prefix_char\<close> and in
  \<open>all_prefixes\<close>, answer as the general path over \<open>held\<close> does.\<close>

theorem prefix_fast_paths:
  "prefix_char cfg m = (case held cfg m of [] \<Rightarrow> '''' | (_, s) # _ \<Rightarrow> s)
   \<and> all_prefixes cfg m = concat (map snd (held cfg m))"
proof (cases "custom_prefixes m = []")
  case True
  then have "held cfg m = builtin_held cfg m"
    by (simp add: held_split custom_held_def List.map_filter_simps builtin_held_sorted)
  then show ?thesis using True by (simp add: prefix_char_def all_prefixes_def builtin_held_def)
qed (simp add: prefix_char_def all_prefixes_def)

section \<open>Well-formed prefix tables and members\<close>

text \<open>No config line can shadow a built-in prefix or a registered mode letter.\<close>

definition wf_prefix_cfg :: "(uchar \<Rightarrow> bool) \<Rightarrow> prefix_cfg \<Rightarrow> bool" where
  "wf_prefix_cfg reserved cfg \<longleftrightarrow>
     length (sigils cfg) = 6 \<and> length (tier_ranktoset cfg) = 6 \<and> length (tier_ranktounset cfg) = 6
     \<and> length (tier_depriv cfg) = 6 \<and> distinct (map pd_letter (custom cfg))
     \<and> (\<forall>d \<in> set (custom cfg). \<not> is_builtin_letter (pd_letter d) \<and> \<not> reserved (pd_letter d))"

lemma tier_option_wf: "wf_prefix_cfg reserved cfg \<Longrightarrow> wf_prefix_cfg reserved (tier_option i tok cfg)"
  by (simp add: tier_option_def wf_prefix_cfg_def split: option.split prod.split)

lemma add_prefix_wf: "wf_prefix_cfg reserved cfg \<Longrightarrow> wf_prefix_cfg reserved (add_prefix reserved p cfg)"
  by (auto simp: add_prefix_def wf_prefix_cfg_def Let_def list_ex_iff split: option.split)

lemma prefix_line_wf: "wf_prefix_cfg reserved cfg \<Longrightarrow> wf_prefix_cfg reserved (prefix_line reserved line cfg)"
proof -
  have "wf_prefix_cfg reserved cfg \<Longrightarrow> wf_prefix_cfg reserved (fold (tier_option i) toks cfg)" for i toks cfg
    by (induction toks arbitrary: cfg) (auto intro: tier_option_wf)
  then show "wf_prefix_cfg reserved cfg \<Longrightarrow> ?thesis"
    by (auto simp: prefix_line_def intro: add_prefix_wf split: list.split option.split)
qed

text \<open>C29: Whatever the \<open>customprefix\<close> lines of the configuration are, the table they build has six
  built-in tiers, gives every config-defined prefix a letter of its own, and never reuses a
  built-in prefix letter or the letter of a registered channel mode.\<close>

theorem prefix_init_wf: "wf_prefix_cfg reserved (prefix_init reserved lines)"
proof -
  have "wf_prefix_cfg reserved cfg \<Longrightarrow> wf_prefix_cfg reserved (fold (prefix_line reserved) lines cfg)" for cfg
    by (induction lines arbitrary: cfg) (auto intro: prefix_line_wf)
  moreover have "wf_prefix_cfg reserved default_prefix_cfg"
    by (simp add: wf_prefix_cfg_def default_prefix_cfg_def default_sigils_def)
  ultimately show ?thesis by (simp add: prefix_init_def)
qed

definition wf_member :: "prefix_cfg \<Rightarrow> member \<Rightarrow> bool" where
  "wf_member cfg m \<longleftrightarrow> pfx_bits m AND 192 = 0 \<and> distinct (custom_prefixes m)
     \<and> (\<forall>c \<in> set (custom_prefixes m). def_for_letter cfg c \<noteq> None \<and> \<not> is_builtin_letter c)"

lemma def_for_letter_not_builtin:
  assumes "wf_prefix_cfg reserved cfg" and "def_for_letter cfg c \<noteq> None"
  shows "\<not> is_builtin_letter c"
  using assms by (auto simp: wf_prefix_cfg_def def_for_letter_def find_Some_iff)

lemma and_keeps_clear: "x AND k = 0 \<Longrightarrow> (x AND y) AND k = (0 :: 8 word)"
  by (metis and.assoc and.commute and_zero_eq)

lemma set_bit_wf:
  assumes "b AND 192 = 0" and "wf_member cfg m"
  shows "wf_member cfg (set_bit b on m)"
proof -
  have "(pfx_bits m OR b) AND 192 = 0" "(pfx_bits m AND NOT b) AND 192 = 0"
    using assms by (simp_all add: wf_member_def bit.conj_disj_distrib2 and_keeps_clear)
  then show ?thesis using assms by (simp add: wf_member_def set_bit_def)
qed

lemma set_prefix_wf:
  assumes "wf_prefix_cfg reserved cfg" and "wf_member cfg m"
  shows "wf_member cfg (set_prefix cfg letter on m)"
proof -
  have "wf_member cfg (m\<lparr>custom_prefixes := filter (\<lambda>c. c \<noteq> letter) (custom_prefixes m) @ (if on then [letter] else [])\<rparr>)"
    if "def_for_letter cfg letter \<noteq> None"
    using assms(2) that def_for_letter_not_builtin [OF assms(1) that] by (simp add: wf_member_def)
  moreover have "wf_member cfg (set_bit b on m)" if "b AND 192 = 0" for b
    using set_bit_wf assms(2) that by blast
  ultimately show ?thesis using assms(2) unfolding set_prefix_def pfx_defs by simp
qed

lemma clear_status_wf: "wf_member cfg m \<Longrightarrow> wf_member cfg (clear_status m)"
  by (simp add: wf_member_def clear_status_def and_keeps_clear del: bit.de_Morgan_disj)

text \<open>The six bits of a well-formed prefix field determine it.\<close>

lemma pfx_bits_decomp:
  fixes x :: "8 word"
  assumes "x AND 192 = 0"
  shows "x = (if x AND 32 \<noteq> 0 then 32 else 0) OR (if x AND 16 \<noteq> 0 then 16 else 0)
     OR (if x AND 8 \<noteq> 0 then 8 else 0) OR (if x AND 4 \<noteq> 0 then 4 else 0)
     OR (if x AND 2 \<noteq> 0 then 2 else 0) OR (if x AND 1 \<noteq> 0 then 1 else 0)"
proof -
  have bits: "x AND push_bit n 1 = 0 \<or> x AND push_bit n 1 = push_bit n 1" if "n < 8" for n
  proof -
    have "x AND push_bit n 1 = (if bit x n then push_bit n 1 else 0)"
      using that by (intro bit_word_eqI) (auto simp: bit_simps)
    then show ?thesis by simp
  qed
  have each: "(if x AND y \<noteq> 0 then y else 0) = x AND y" if "y \<in> {1, 2, 4, 8, 16, 32}" for y
    using that bits [of 0] bits [of 1] bits [of 2] bits [of 3] bits [of 4] bits [of 5] by auto
  have "(192 OR 32 OR 16 OR 8 OR 4 OR 2 OR 1 :: 8 word) = - 1" by code_simp
  then have "x = x AND (192 OR 32 OR 16 OR 8 OR 4 OR 2 OR 1)" by (simp only: bit.conj_one_right)
  also have "\<dots> = (x AND 32) OR (x AND 16) OR (x AND 8) OR (x AND 4) OR (x AND 2) OR (x AND 1)"
    unfolding bit.conj_disj_distrib assms by (simp add: or.assoc)
  finally show ?thesis by (simp add: each)
qed

text \<open>Adding config-defined letters one by one, none of them held yet, appends them in order.\<close>

lemma fold_set_custom:
  assumes "distinct (custom_prefixes m @ cs)"
    and "\<And>c. c \<in> set cs \<Longrightarrow> def_for_letter cfg c \<noteq> None \<and> \<not> is_builtin_letter c"
  shows "fold (\<lambda>l. set_prefix cfg l True) cs m = m\<lparr>custom_prefixes := custom_prefixes m @ cs\<rparr>"
  using assms
proof (induction cs arbitrary: m)
  case (Cons c cs)
  have "filter (\<lambda>x. x \<noteq> c) (custom_prefixes m) = custom_prefixes m"
    using Cons.prems(1) by (auto simp: filter_id_conv)
  then have "set_prefix cfg c True m = m\<lparr>custom_prefixes := custom_prefixes m @ [c]\<rparr>"
    using Cons.prems(2) [of c] by (auto simp: set_prefix_def is_builtin_letter_def tier_letters_def)
  then show ?case using Cons by simp
qed simp

lemma fold_map_filter:
  "fold f (map snd (filter fst xs)) m = fold (\<lambda>(on, l) m. if on then f l m else m) xs m"
  by (induction xs arbitrary: m) auto

lemma fold_set_builtin:
  "fold (\<lambda>l. set_prefix cfg l True)
     (map snd (filter fst [(b5, ''y''), (b4, ''q''), (b3, ''a''), (b2, ''o''), (b1, ''h''), (b0, ''v'')]))
     default_member
   = default_member\<lparr>pfx_bits := (if b5 then 32 else 0) OR (if b4 then 16 else 0) OR (if b3 then 8 else 0)
       OR (if b2 then 4 else 0) OR (if b1 then 2 else 0) OR (if b0 then 1 else 0)\<rparr>"
proof -
  have set: "(if on then set_prefix cfg ''y'' True m else m) = m\<lparr>pfx_bits := pfx_bits m OR (if on then 32 else 0)\<rparr>"
    "(if on then set_prefix cfg ''q'' True m else m) = m\<lparr>pfx_bits := pfx_bits m OR (if on then 16 else 0)\<rparr>"
    "(if on then set_prefix cfg ''a'' True m else m) = m\<lparr>pfx_bits := pfx_bits m OR (if on then 8 else 0)\<rparr>"
    "(if on then set_prefix cfg ''o'' True m else m) = m\<lparr>pfx_bits := pfx_bits m OR (if on then 4 else 0)\<rparr>"
    "(if on then set_prefix cfg ''h'' True m else m) = m\<lparr>pfx_bits := pfx_bits m OR (if on then 2 else 0)\<rparr>"
    "(if on then set_prefix cfg ''v'' True m else m) = m\<lparr>pfx_bits := pfx_bits m OR (if on then 1 else 0)\<rparr>"
    for on m
    by (simp_all add: set_prefix_def set_bit_def pfx_defs)
  show ?thesis
    unfolding fold_map_filter
    by (simp only: fold_simps prod.case set) (simp add: default_member_def or.assoc split del: if_split)
qed

text \<open>C19: The letters a channel burst lists for a member rebuild the member's status on the receiving
  side: applying \<open>set_prefix\<close> for each of them to a fresh member gives the same prefix bits and the
  same config-defined prefixes, in the same order.\<close>

theorem burst_status_roundtrip:
  assumes "wf_member cfg m"
  shows "fold (\<lambda>l. set_prefix cfg l True) (mode_letters cfg m) default_member
           = default_member\<lparr>pfx_bits := pfx_bits m, custom_prefixes := custom_prefixes m\<rparr>"
proof -
  have customs: "filter (\<lambda>c. def_for_letter cfg c \<noteq> None) (custom_prefixes m) = custom_prefixes m"
    using assms by (auto simp: wf_member_def filter_id_conv)
  have bits: "fold (\<lambda>l. set_prefix cfg l True)
     (map snd (filter fst [(has_bit m PFX_OPER, ''y''), (has_bit m PFX_OWNER, ''q''), (has_bit m PFX_ADMIN, ''a''),
        (has_bit m PFX_OP, ''o''), (has_bit m PFX_HALFOP, ''h''), (has_bit m PFX_VOICE, ''v'')])) default_member
      = default_member\<lparr>pfx_bits := pfx_bits m\<rparr>"
    unfolding fold_set_builtin has_bit_def pfx_defs
    using pfx_bits_decomp [of "pfx_bits m"] assms by (simp only: wf_member_def)
  show ?thesis
    unfolding mode_letters_def fold_append comp_apply bits customs
    by (subst fold_set_custom) (use assms in \<open>auto simp: wf_member_def default_member_def\<close>)
qed

definition helper_prefix :: prefix_def where
  "helper_prefix = \<lparr>pd_letter = ''V'', pd_sigil = ''?'', pd_rank = 25, pd_ranktoset = 30,
     pd_ranktounset = 30, pd_depriv = True\<rparr>"

theorem burst_status_roundtrip_witness:
  "fold (\<lambda>l. set_prefix (default_prefix_cfg\<lparr>custom := [helper_prefix]\<rparr>) l True)
     (mode_letters (default_prefix_cfg\<lparr>custom := [helper_prefix]\<rparr>)
        (default_member\<lparr>pfx_bits := 5, custom_prefixes := [''V''], joined := 99\<rparr>)) default_member
   = default_member\<lparr>pfx_bits := 5, custom_prefixes := [''V'']\<rparr>"
proof -
  have "wf_member (default_prefix_cfg\<lparr>custom := [helper_prefix]\<rparr>)
      (default_member\<lparr>pfx_bits := 5, custom_prefixes := [''V''], joined := 99\<rparr>)"
    by (simp add: wf_member_def def_for_letter_def helper_prefix_def is_builtin_letter_def tier_letters_def
        default_member_def)
  from burst_status_roundtrip [OF this] show ?thesis by simp
qed

end
