(* ===== verification/ChanModes.thy ===== *)
theory ChanModes
  imports Member
begin

text \<open>
  The channel record of \<open>src/channels.rs\<close>: topic, bans, flood settings, the channel modes with
  \<open>set_by_letter\<close> (the applier used for modes from another server) and \<open>render\<close> (the
  \<open>+mnt\<close> form shown to clients and sent to other servers), and the life-time test \<open>keep_alive\<close>.
\<close>

section \<open>Data\<close>

record topic =
  topic_text :: string
  topic_setter :: string
  topic_ts :: nat

record ban =
  mask :: string
  setter :: string
  ban_ts :: nat
  expires :: "nat option"

record msg_flood =
  mf_lines :: nat
  mf_secs :: nat
  mf_ban :: bool

record rate =
  rate_count :: nat
  rate_secs :: nat

record chan_modes =
  moderated :: bool
  topic_ops :: bool
  no_external :: bool
  invite_only :: bool
  secret :: bool
  chan_key :: "string option"
  chan_limit :: "nat option"
  secure_only :: bool
  private_chan :: bool
  oper_only :: bool
  no_nick :: bool
  no_ctcp :: bool
  no_notice :: bool
  no_color :: bool
  strip_color :: bool
  reg_only :: bool
  reg_moderated :: bool
  censor :: bool
  auditorium :: bool
  flood :: "msg_flood option"
  joinflood :: "rate option"
  nickflood :: "rate option"
  slowmode :: "rate option"
  redirect :: "string option"
  chan_history :: "(nat \<times> nat) option"
  anticaps :: "nat option"
  nokicks :: bool
  allowinvite :: bool
  permanent :: bool
  kicknorejoin :: "nat option"
  opmoderated :: bool
  delaymsg :: "nat option"
  repeat_limit :: "nat option"
  delayjoin :: bool
  encrypted :: bool
  registered_chan :: bool

definition default_modes :: chan_modes where
  "default_modes = \<lparr>moderated = False, topic_ops = False, no_external = False, invite_only = False,
     secret = False, chan_key = None, chan_limit = None, secure_only = False, private_chan = False,
     oper_only = False, no_nick = False, no_ctcp = False, no_notice = False, no_color = False,
     strip_color = False, reg_only = False, reg_moderated = False, censor = False, auditorium = False,
     flood = None, joinflood = None, nickflood = None, slowmode = None, redirect = None,
     chan_history = None, anticaps = None, nokicks = False, allowinvite = False, permanent = False,
     kicknorejoin = None, opmoderated = False, delaymsg = None, repeat_limit = None,
     delayjoin = False, encrypted = False, registered_chan = False\<rparr>"

section \<open>Mode letters\<close>

definition set_by_letter :: "uchar \<Rightarrow> bool \<Rightarrow> chan_modes \<Rightarrow> chan_modes" where
  "set_by_letter c on m =
     (if c = ''m'' then m\<lparr>moderated := on\<rparr>
      else if c = ''n'' then m\<lparr>no_external := on\<rparr>
      else if c = ''t'' then m\<lparr>topic_ops := on\<rparr>
      else if c = ''i'' then m\<lparr>invite_only := on\<rparr>
      else if c = ''s'' then m\<lparr>secret := on\<rparr>
      else if c = ''z'' then m\<lparr>secure_only := on\<rparr>
      else if c = ''p'' then m\<lparr>private_chan := on\<rparr>
      else if c = ''O'' then m\<lparr>oper_only := on\<rparr>
      else if c = ''N'' then m\<lparr>no_nick := on\<rparr>
      else if c = ''C'' then m\<lparr>no_ctcp := on\<rparr>
      else if c = ''T'' then m\<lparr>no_notice := on\<rparr>
      else if c = ''c'' then m\<lparr>no_color := on\<rparr>
      else if c = ''S'' then m\<lparr>strip_color := on\<rparr>
      else if c = ''R'' then m\<lparr>reg_only := on\<rparr>
      else if c = ''M'' then m\<lparr>reg_moderated := on\<rparr>
      else if c = ''G'' then m\<lparr>censor := on\<rparr>
      else if c = ''u'' then m\<lparr>auditorium := on\<rparr>
      else if c = ''Q'' then m\<lparr>nokicks := on\<rparr>
      else if c = ''A'' then m\<lparr>allowinvite := on\<rparr>
      else if c = ''P'' then m\<lparr>permanent := on\<rparr>
      else if c = ''U'' then m\<lparr>opmoderated := on\<rparr>
      else if c = ''D'' then m\<lparr>delayjoin := on\<rparr>
      else if c = ''E'' then m\<lparr>encrypted := on\<rparr>
      else if c = ''r'' then m\<lparr>registered_chan := on\<rparr>
      else m)"

text \<open>\<open>render\<close>: the flag letters, the letters of the parameter modes, and with \<open>params\<close> their
  values.\<close>

definition flag_letters :: "chan_modes \<Rightarrow> (bool \<times> uchar) list" where
  "flag_letters m =
     [(registered_chan m, ''r''), (invite_only m, ''i''), (moderated m, ''m''), (no_external m, ''n''),
      (secret m, ''s''), (topic_ops m, ''t''), (secure_only m, ''z''), (private_chan m, ''p''),
      (oper_only m, ''O''), (no_nick m, ''N''), (no_ctcp m, ''C''), (no_notice m, ''T''),
      (no_color m, ''c''), (strip_color m, ''S''), (reg_only m, ''R''), (reg_moderated m, ''M''),
      (censor m, ''G''), (auditorium m, ''u''), (permanent m, ''P''), (nokicks m, ''Q''),
      (allowinvite m, ''A''), (opmoderated m, ''U''), (delayjoin m, ''D''), (encrypted m, ''E'')]"

definition render_param_letters :: "chan_modes \<Rightarrow> string" where
  "render_param_letters m =
     (if chan_key m \<noteq> None then ''k'' else '''') @ (if chan_limit m \<noteq> None then ''l'' else '''')
     @ (if flood m \<noteq> None then ''f'' else '''') @ (if joinflood m \<noteq> None then ''j'' else '''')
     @ (if nickflood m \<noteq> None then ''F'' else '''') @ (if slowmode m \<noteq> None then ''W'' else '''')
     @ (if redirect m \<noteq> None then ''L'' else '''') @ (if chan_history m \<noteq> None then ''H'' else '''')
     @ (if anticaps m \<noteq> None then ''B'' else '''') @ (if kicknorejoin m \<noteq> None then ''J'' else '''')
     @ (if delaymsg m \<noteq> None then ''d'' else '''') @ (if repeat_limit m \<noteq> None then ''K'' else '''')"

definition show_rate :: "rate \<Rightarrow> string" where
  "show_rate r = show_nat (rate_count r) @ '':'' @ show_nat (rate_secs r)"

definition show_flood :: "msg_flood \<Rightarrow> string" where
  "show_flood f = (if mf_ban f then ''*'' else '''') @ show_nat (mf_lines f) @ '':'' @ show_nat (mf_secs f)"

definition opt_word :: "('a \<Rightarrow> string) \<Rightarrow> 'a option \<Rightarrow> string" where
  "opt_word f x = (case x of None \<Rightarrow> '''' | Some a \<Rightarrow> '' '' @ f a)"

definition render_params :: "chan_modes \<Rightarrow> string" where
  "render_params m =
     opt_word id (chan_key m) @ opt_word show_nat (chan_limit m) @ opt_word show_flood (flood m)
     @ opt_word show_rate (joinflood m) @ opt_word show_rate (nickflood m) @ opt_word show_rate (slowmode m)
     @ opt_word id (redirect m)
     @ opt_word (\<lambda>(n, t). show_nat n @ '':'' @ show_nat t) (chan_history m)
     @ opt_word show_nat (anticaps m) @ opt_word show_nat (kicknorejoin m) @ opt_word show_nat (delaymsg m)
     @ opt_word show_nat (repeat_limit m)"

definition render :: "chan_modes \<Rightarrow> bool \<Rightarrow> string" where
  "render m params =
     ''+'' @ concat (map (\<lambda>(on, ch). if on then ch else '''') (flag_letters m))
     @ render_param_letters m @ (if params then render_params m else '''')"

section \<open>Channels\<close>

type_synonym uid = nat

record channel =
  chan_name :: string
  topic_of :: "topic option"
  members :: "(uid \<times> member) list"
  rmembers :: "(string \<times> member) list"
  modes :: chan_modes
  bans :: "ban list"
  excepts :: "ban list"
  invex :: "ban list"
  filters :: "ban list"
  exemptchanops :: "ban list"
  autoop :: "ban list"
  invites :: "uid list"
  created :: nat
  msgflood_hits :: "(uid \<times> nat list) list"
  joinflood_hits :: "nat list"
  joinflood_until :: nat
  nickflood_hits :: "nat list"
  nickflood_until :: nat
  recent_kicks :: "(uid \<times> nat) list"

definition new_channel :: "nat \<Rightarrow> string \<Rightarrow> channel" where
  "new_channel now name =
     \<lparr>chan_name = name, topic_of = None, members = [], rmembers = [],
      modes = default_modes\<lparr>no_external := True, topic_ops := True\<rparr>, bans = [], excepts = [], invex = [],
      filters = [], exemptchanops = [], autoop = [], invites = [], created = now, msgflood_hits = [],
      joinflood_hits = [], joinflood_until = 0, nickflood_hits = [], nickflood_until = 0,
      recent_kicks = []\<rparr>"

definition is_empty_chan :: "channel \<Rightarrow> bool" where
  "is_empty_chan c \<longleftrightarrow> members c = [] \<and> rmembers c = []"

definition keep_alive :: "channel \<Rightarrow> bool" where
  "keep_alive c \<longleftrightarrow> \<not> is_empty_chan c \<or> permanent (modes c) \<or> registered_chan (modes c)"

section \<open>Rendering and applying flag modes\<close>

lemma set_by_letter_flag:
  "(if on then set_by_letter ''r'' True m else m) = registered_chan_update (\<lambda>b. b \<or> on) m"
  "(if on then set_by_letter ''i'' True m else m) = invite_only_update (\<lambda>b. b \<or> on) m"
  "(if on then set_by_letter ''m'' True m else m) = moderated_update (\<lambda>b. b \<or> on) m"
  "(if on then set_by_letter ''n'' True m else m) = no_external_update (\<lambda>b. b \<or> on) m"
  "(if on then set_by_letter ''s'' True m else m) = secret_update (\<lambda>b. b \<or> on) m"
  "(if on then set_by_letter ''t'' True m else m) = topic_ops_update (\<lambda>b. b \<or> on) m"
  "(if on then set_by_letter ''z'' True m else m) = secure_only_update (\<lambda>b. b \<or> on) m"
  "(if on then set_by_letter ''p'' True m else m) = private_chan_update (\<lambda>b. b \<or> on) m"
  "(if on then set_by_letter ''O'' True m else m) = oper_only_update (\<lambda>b. b \<or> on) m"
  "(if on then set_by_letter ''N'' True m else m) = no_nick_update (\<lambda>b. b \<or> on) m"
  "(if on then set_by_letter ''C'' True m else m) = no_ctcp_update (\<lambda>b. b \<or> on) m"
  "(if on then set_by_letter ''T'' True m else m) = no_notice_update (\<lambda>b. b \<or> on) m"
  "(if on then set_by_letter ''c'' True m else m) = no_color_update (\<lambda>b. b \<or> on) m"
  "(if on then set_by_letter ''S'' True m else m) = strip_color_update (\<lambda>b. b \<or> on) m"
  "(if on then set_by_letter ''R'' True m else m) = reg_only_update (\<lambda>b. b \<or> on) m"
  "(if on then set_by_letter ''M'' True m else m) = reg_moderated_update (\<lambda>b. b \<or> on) m"
  "(if on then set_by_letter ''G'' True m else m) = censor_update (\<lambda>b. b \<or> on) m"
  "(if on then set_by_letter ''u'' True m else m) = auditorium_update (\<lambda>b. b \<or> on) m"
  "(if on then set_by_letter ''P'' True m else m) = permanent_update (\<lambda>b. b \<or> on) m"
  "(if on then set_by_letter ''Q'' True m else m) = nokicks_update (\<lambda>b. b \<or> on) m"
  "(if on then set_by_letter ''A'' True m else m) = allowinvite_update (\<lambda>b. b \<or> on) m"
  "(if on then set_by_letter ''U'' True m else m) = opmoderated_update (\<lambda>b. b \<or> on) m"
  "(if on then set_by_letter ''D'' True m else m) = delayjoin_update (\<lambda>b. b \<or> on) m"
  "(if on then set_by_letter ''E'' True m else m) = encrypted_update (\<lambda>b. b \<or> on) m"
  by (simp_all add: set_by_letter_def)

text \<open>The flags of \<open>m\<close> alone, every parameter mode unset.\<close>

definition flags_only :: "chan_modes \<Rightarrow> chan_modes" where
  "flags_only m = m\<lparr>chan_key := None, chan_limit := None, flood := None, joinflood := None, nickflood := None,
     slowmode := None, redirect := None, chan_history := None, anticaps := None, kicknorejoin := None,
     delaymsg := None, repeat_limit := None\<rparr>"

lemma fold_flag_letters:
  "fold (\<lambda>c. set_by_letter c True) (map snd (filter fst (flag_letters m))) default_modes = flags_only m"
  unfolding fold_map_filter flag_letters_def
  by (simp only: fold_simps prod.case set_by_letter_flag) (simp add: default_modes_def flags_only_def)

lemma singleton_letters:
  "(\<And>x. x \<in> set xs \<Longrightarrow> length (snd x) = 1) \<Longrightarrow>
     map (\<lambda>c. [c]) (concat (map (\<lambda>(on, ch). if on then ch else []) xs)) = map snd (filter fst xs)"
proof (induction xs)
  case (Cons x xs)
  then obtain c where "snd x = [c]" by (metis length_Suc_conv length_0_conv One_nat_def list.set_intros(1))
  then show ?case using Cons by (cases x) auto
qed simp

lemma param_letter_ignored: "c \<in> set ''klfjFWLHBJdK'' \<Longrightarrow> set_by_letter [c] on m = m"
  by (simp, elim disjE) (simp_all add: set_by_letter_def)

lemma render_param_letters_set: "set (render_param_letters m) \<subseteq> set ''klfjFWLHBJdK''"
  by (simp add: render_param_letters_def subset_iff)

lemma fold_param_letters:
  "set cs \<subseteq> set ''klfjFWLHBJdK'' \<Longrightarrow> fold (\<lambda>c. set_by_letter [c] True) cs m = m"
  by (induction cs) (simp_all add: param_letter_ignored)

lemma flag_letter_length: "x \<in> set (flag_letters m) \<Longrightarrow> length (snd x) = 1"
proof -
  have "list_all (\<lambda>x. length (snd x) = 1) (flag_letters m)" by (simp add: flag_letters_def)
  then show "x \<in> set (flag_letters m) \<Longrightarrow> ?thesis" by (simp add: list_all_iff)
qed

text \<open>C30: The mode string shown for a channel names its flags completely and correctly: a peer that
  applies its letters one by one to a channel without modes, as the server-to-server applier does,
  ends with the same flags.  Letters of parameter modes are ignored by that applier.\<close>

theorem render_set_by_letter_roundtrip:
  "fold (\<lambda>c. set_by_letter [c] True) (tl (render m False)) default_modes = flags_only m"
proof -
  have "fold (\<lambda>c. set_by_letter [c] True) (tl (render m False)) default_modes
      = fold (\<lambda>c. set_by_letter [c] True) (render_param_letters m)
          (fold (\<lambda>c. set_by_letter c True)
             (map (\<lambda>c. [c]) (concat (map (\<lambda>(on, ch). if on then ch else []) (flag_letters m)))) default_modes)"
    by (simp add: render_def fold_map comp_def)
  also have "\<dots> = flags_only m"
    using singleton_letters [of "flag_letters m"] flag_letter_length
    by (simp add: fold_flag_letters fold_param_letters [OF render_param_letters_set])
  finally show ?thesis .
qed

end
