(* ===== verification/I18n.thy ===== *)
theory I18n
  imports Prelude
begin

text \<open>
  Message localization, \<open>src/i18n.rs\<close>: the catalog of translated messages, the loader of a
  \<open>lang/<code>.conf\<close> file, the translation of a numeric's trailing text, and the filling of
  \<open>{0}\<close>, \<open>{1}\<close>, \<open>\<dots>\<close> placeholders.  The catalog is a hash map from English text to its
  translation, kept as an association list.  The loader's warning texts are not modelled.
\<close>

section \<open>Placeholders\<close>

lemma split_once_shorter: "split_once d s = Some (a, b) \<Longrightarrow> length b < length s"
  using split_once_SomeD [of d s a b] by auto

definition utf8_len :: "char \<Rightarrow> nat" where
  "utf8_len c =
     (let b = byte_of c in
      if b \<le> 0x7f then 1 else if 0xc0 \<le> b \<and> b \<le> 0xdf then 2 else if 0xe0 \<le> b \<and> b \<le> 0xef then 3 else 4)"

text \<open>The loop of \<open>render\<close>, over the rest of the template.\<close>

function render_loop :: "string list \<Rightarrow> string \<Rightarrow> string" where
  "render_loop args s =
     (case s of
        [] \<Rightarrow> []
      | c # r \<Rightarrow>
          if c = CHR ''{'' \<and> r \<noteq> [] \<and> hd r = CHR ''{'' then CHR ''{'' # render_loop args (tl r)
          else if c = CHR ''}'' \<and> r \<noteq> [] \<and> hd r = CHR ''}'' then CHR ''}'' # render_loop args (tl r)
          else if c = CHR ''{'' then
            (case split_once (CHR ''}'') r of
               Some (inner, rest) \<Rightarrow>
                 (case parse_uint 64 inner of
                    Some idx \<Rightarrow> (if idx < length args then args ! idx else []) @ render_loop args rest
                  | None \<Rightarrow> CHR ''{'' # render_loop args r)
             | None \<Rightarrow> CHR ''{'' # render_loop args r)
          else take (utf8_len c) s @ render_loop args (drop (utf8_len c) s))"
  by pat_completeness auto
termination
  by (relation "measure (\<lambda>(args, s). length s)")
    (auto simp: utf8_len_def Let_def less_Suc_eq dest: split_once_shorter)

declare render_loop.simps [simp del]

definition render_template :: "string \<Rightarrow> string list \<Rightarrow> string" where
  "render_template template args = (if CHR ''{'' \<notin> set template then template else render_loop args template)"

function placeholders :: "string \<Rightarrow> nat list" where
  "placeholders s =
     (case s of
        [] \<Rightarrow> []
      | c # r \<Rightarrow>
          if c = CHR ''{'' then
            if r \<noteq> [] \<and> hd r = CHR ''{'' then placeholders (tl r)
            else (case split_once (CHR ''}'') r of
                    Some (inner, rest) \<Rightarrow>
                      (case parse_uint 64 inner of Some idx \<Rightarrow> [idx] | None \<Rightarrow> []) @ placeholders rest
                  | None \<Rightarrow> placeholders r)
          else placeholders r)"
  by pat_completeness auto
termination
  by (relation "measure length") (auto simp: less_Suc_eq dest: split_once_shorter)

declare placeholders.simps [simp del]

section \<open>Catalog files\<close>

definition hex_val :: "char \<Rightarrow> nat option" where
  "hex_val c =
     (let b = byte_of c in
      if 48 \<le> b \<and> b \<le> 57 then Some (b - 48)
      else if 97 \<le> b \<and> b \<le> 102 then Some (b - 87)
      else if 65 \<le> b \<and> b \<le> 70 then Some (b - 55)
      else None)"

text \<open>\<open>u8::from_str_radix(_, 16)\<close>.\<close>

definition parse_hex_u8 :: "string \<Rightarrow> nat option" where
  "parse_hex_u8 s =
     (let ds = map hex_val (case strip_prefix ''+'' s of Some r \<Rightarrow> r | None \<Rightarrow> s) in
      if ds = [] \<or> None \<in> set ds then None
      else let n = foldl (\<lambda>n d. 16 * n + the d) 0 ds in if n < 256 then Some n else None)"

text \<open>\<open>b as char\<close>: a byte as the code point of the same number, in UTF-8.\<close>

definition byte_as_char :: "nat \<Rightarrow> uchar" where
  "byte_as_char b = (if b < 128 then [char_of b] else [char_of (192 + b div 64), char_of (128 + b mod 64)])"

text \<open>The body of a quoted string, after its opening quote.\<close>

fun read_quoted_loop :: "uchar list \<Rightarrow> string \<Rightarrow> (string \<times> uchar list) option" where
  "read_quoted_loop [] out = None"
| "read_quoted_loop (c # cs) out =
     (if c = [CHR 0x5C] then
        (case cs of
           [] \<Rightarrow> None
         | e # cs1 \<Rightarrow>
             if e = ''n'' then read_quoted_loop cs1 (out @ [CHR 0x0A])
             else if e = ''t'' then read_quoted_loop cs1 (out @ [CHR 0x09])
             else if e = [CHR 0x22] then read_quoted_loop cs1 (out @ [CHR 0x22])
             else if e = [CHR 0x5C] then read_quoted_loop cs1 (out @ [CHR 0x5C])
             else if e = ''x'' then
               (case cs1 of
                  h1 # h2 # cs2 \<Rightarrow>
                    (case parse_hex_u8 (h1 @ h2) of
                       Some b \<Rightarrow> read_quoted_loop cs2 (out @ byte_as_char b)
                     | None \<Rightarrow> read_quoted_loop cs2 (out @ [CHR 0x5C] @ ''x'' @ h1 @ h2))
                | _ \<Rightarrow> None)
             else read_quoted_loop cs1 (out @ [CHR 0x5C] @ e))
      else if c = [CHR 0x22] then Some (out, cs)
      else read_quoted_loop cs (out @ c))"

definition read_quoted :: "uchar list \<Rightarrow> (string \<times> uchar list) option" where
  "read_quoted cs =
     (case cs of
        [] \<Rightarrow> None
      | c # cs' \<Rightarrow> if c \<noteq> [CHR 0x22] then None else read_quoted_loop cs' [])"

definition trim_start_ws :: "uchar list \<Rightarrow> uchar list" where
  "trim_start_ws cs = dropWhile is_whitespace cs"

definition trim_ws :: "uchar list \<Rightarrow> uchar list" where
  "trim_ws cs = rev (dropWhile is_whitespace (rev (dropWhile is_whitespace cs)))"

definition parse_entry :: "uchar list \<Rightarrow> (string \<times> string) option" where
  "parse_entry line =
     (case read_quoted line of
        None \<Rightarrow> None
      | Some (key, rest) \<Rightarrow>
          (case trim_start_ws rest of
             c # rest' \<Rightarrow>
               if c = ''='' then
                 (case read_quoted (trim_start_ws rest') of
                    Some (val, tail) \<Rightarrow> if trim_ws tail \<noteq> [] then None else Some (key, val)
                  | None \<Rightarrow> None)
               else None
           | [] \<Rightarrow> None))"

record catalog =
  cat_map :: "(string \<times> string) list"
  cat_locale :: string

definition passthrough :: catalog where
  "passthrough = \<lparr>cat_map = [], cat_locale = ''en''\<rparr>"

text \<open>\<open>str::lines\<close>: split at line feeds, a final empty piece and one carriage return per line dropped.\<close>

definition str_lines :: "string \<Rightarrow> string list" where
  "str_lines s =
     (let ls = split_char (CHR 0x0A) s;
          ls = (if last ls = [] then butlast ls else ls)
      in map (\<lambda>l. if l \<noteq> [] \<and> last l = CHR 0x0D then butlast l else l) ls)"

definition load_line :: "string \<Rightarrow> (string \<times> string) list \<Rightarrow> (string \<times> string) list" where
  "load_line raw m =
     (let line = trim_ws (utf8_chars raw) in
      if line = [] \<or> hd line = ''#'' then m
      else case parse_entry line of
             Some (key, val) \<Rightarrow>
               if set (placeholders key) \<noteq> set (placeholders val) then m
               else if val \<noteq> [] then AList.update key val m else m
           | None \<Rightarrow> m)"

text \<open>\<open>file\<close> is the result of reading \<open><dir>/<locale>.conf\<close>, \<open>None\<close> when it cannot be read.\<close>

definition load_catalog :: "string option \<Rightarrow> string \<Rightarrow> catalog" where
  "load_catalog file locale =
     (if locale = [] \<or> eq_ignore_ascii_case locale ''en'' then passthrough
      else case file of
             None \<Rightarrow> passthrough
           | Some text \<Rightarrow> \<lparr>cat_map = fold load_line (str_lines text) [], cat_locale = locale\<rparr>)"

section \<open>Translation\<close>

definition tr :: "catalog \<Rightarrow> string \<Rightarrow> string" where
  "tr cat english = (case map_of (cat_map cat) english of Some t \<Rightarrow> t | None \<Rightarrow> english)"

text \<open>\<open>str::find\<close> of a two-byte needle, as the pieces before and after it.\<close>

fun split_at_sep :: "char \<Rightarrow> char \<Rightarrow> string \<Rightarrow> (string \<times> string) option" where
  "split_at_sep a b (x # y # s) =
     (if x = a \<and> y = b then Some ([], s) else map_option (\<lambda>(p, q). (x # p, q)) (split_at_sep a b (y # s)))"
| "split_at_sep a b s = None"

definition tr_numeric :: "catalog \<Rightarrow> string \<Rightarrow> string" where
  "tr_numeric cat rest =
     (if cat_map cat = [] then rest
      else case split_at_sep (CHR '' '') (CHR '':'') rest of
             Some (head, trail) \<Rightarrow> head @ '' :'' @ tr cat trail
           | None \<Rightarrow>
               (case rest of
                  c # trail \<Rightarrow> if c = CHR '':'' then '':'' @ tr cat trail else rest
                | [] \<Rightarrow> rest))"

definition trf :: "catalog \<Rightarrow> string \<Rightarrow> string list \<Rightarrow> string" where
  "trf cat template args = render_template (tr cat template) args"

section \<open>What a loaded catalog guarantees\<close>

definition entry_ok :: "string \<times> string \<Rightarrow> bool" where
  "entry_ok e \<longleftrightarrow> snd e \<noteq> [] \<and> set (placeholders (fst e)) = set (placeholders (snd e))"

lemma load_line_ok: "list_all entry_ok m \<Longrightarrow> list_all entry_ok (load_line raw m)"
proof -
  have upd: "list_all entry_ok m \<Longrightarrow> entry_ok (k, v) \<Longrightarrow> list_all entry_ok (AList.update k v m)" for k v m
    by (induction m) auto
  assume "list_all entry_ok m"
  then show ?thesis
    by (auto simp: load_line_def Let_def entry_ok_def [of "(_, _)"] intro!: upd split: option.split prod.split)
qed

lemma load_line_distinct: "distinct (map fst m) \<Longrightarrow> distinct (map fst (load_line raw m))"
  by (auto simp: load_line_def Let_def distinct_update split: option.split prod.split)



lemma split_at_sep_fresh: "b \<notin> set head \<Longrightarrow> a \<noteq> b \<Longrightarrow> split_at_sep a b (head @ a # b # trail) = Some (head, trail)"
proof (induction head)
  case (Cons x head)
  then show ?case by (cases head) auto
qed simp



end
