(* ===== verification/Civil.thy ===== *)
theory Civil
  imports Prelude "HOL-Library.Monad_Syntax"
begin

text \<open>
  Calendar time of \<open>src/server.rs\<close>: \<open>civil\<close> (unix seconds to a UTC date), \<open>iso_time\<close> and
  \<open>long_date\<close> (its two printed forms) and \<open>parse_iso\<close> (the reader of \<open>server-time\<close> values).  The
  dates are computed in \<open>i64\<close>; every intermediate result is far inside its range, so the model uses
  \<open>int\<close>.  Rust's \<open>/\<close> truncates towards zero and HOL's \<open>div\<close> rounds down; they agree on every
  division below, whose operands are not negative (the two eras, which may be, are written as
  the source writes them).
\<close>

section \<open>Definitions\<close>

text \<open>Signed division of Rust, with a positive divisor.\<close>

definition rdiv :: "int \<Rightarrow> int \<Rightarrow> int" where
  "rdiv a b = (if a \<ge> 0 then a div b else - ((- a) div b))"

definition civil :: "nat \<Rightarrow> int \<times> int \<times> int \<times> nat \<times> nat \<times> nat" where
  "civil secs =
     (let days = int (secs div 86400);
          h = secs mod 86400 div 3600; mi = secs mod 3600 div 60; s = secs mod 60;
          z = days + 719468;
          era = rdiv (if z \<ge> 0 then z else z - 146096) 146097;
          doe = z - era * 146097;
          yoe = rdiv (doe - rdiv doe 1460 + rdiv doe 36524 - rdiv doe 146096) 365;
          y = yoe + era * 400;
          doy = doe - (365 * yoe + rdiv yoe 4 - rdiv yoe 100);
          mp = rdiv (5 * doy + 2) 153;
          d = doy - rdiv (153 * mp + 2) 5 + 1;
          m = (if mp < 10 then mp + 3 else mp - 9);
          y = (if m \<le> 2 then y + 1 else y)
      in (y, m, d, h, mi, s))"

definition iso_time :: "nat \<Rightarrow> string" where
  "iso_time secs =
     (case civil secs of (y, m, d, h, mi, s) \<Rightarrow>
        show_pad 4 (nat y) @ ''-'' @ show_pad 2 (nat m) @ ''-'' @ show_pad 2 (nat d) @ ''T''
        @ show_pad 2 h @ '':'' @ show_pad 2 mi @ '':'' @ show_pad 2 s @ ''.000Z'')"

definition week_days :: "string list" where
  "week_days = [''Sun'', ''Mon'', ''Tue'', ''Wed'', ''Thu'', ''Fri'', ''Sat'']"

definition month_names :: "string list" where
  "month_names = [''Jan'', ''Feb'', ''Mar'', ''Apr'', ''May'', ''Jun'',
                  ''Jul'', ''Aug'', ''Sep'', ''Oct'', ''Nov'', ''Dec'']"

definition long_date :: "nat \<Rightarrow> string" where
  "long_date secs =
     (case civil secs of (y, m, d, h, mi, s) \<Rightarrow>
        week_days ! ((secs div 86400 + 4) mod 7) @ '' '' @ show_pad 2 (nat d) @ '' ''
        @ month_names ! nat (m - 1) @ '' '' @ show_pad 4 (nat y) @ '' ''
        @ show_pad 2 h @ '':'' @ show_pad 2 mi @ '':'' @ show_pad 2 s)"

text \<open>\<open>parse_iso\<close>: the days of a civil date, the split into fields, and the range test.\<close>

definition days_from_civil :: "int \<Rightarrow> int \<Rightarrow> int \<Rightarrow> int" where
  "days_from_civil y mo da =
     (let yy = y - (if mo \<le> 2 then 1 else 0);
          era = rdiv (if yy \<ge> 0 then yy else yy - 399) 400;
          yoe = yy - era * 400;
          mp = (if mo > 2 then mo - 3 else mo + 9);
          doy = rdiv (153 * mp + 2) 5 + da - 1;
          doe = yoe * 365 + rdiv yoe 4 - rdiv yoe 100 + doy
      in era * 146097 + doe - 719468)"

definition trim_end_char :: "char \<Rightarrow> string \<Rightarrow> string" where
  "trim_end_char c s = rev (dropWhile (\<lambda>x. x = c) (rev s))"

definition iso_fields :: "string \<Rightarrow> (int \<times> int \<times> int \<times> int \<times> int \<times> int) option" where
  "iso_fields s = do {
     (date, time) \<leftarrow> split_once (CHR ''T'') s;
     let d = split_char (CHR ''-'') date;
     y \<leftarrow> parse_int 64 (d ! 0);
     mo \<leftarrow> (if 1 < length d then parse_int 64 (d ! 1) else None);
     da \<leftarrow> (if 2 < length d then parse_int 64 (d ! 2) else None);
     let time = split_char (CHR ''.'') (trim_end_char (CHR ''Z'') time) ! 0;
     let t = split_char (CHR '':'') time;
     h \<leftarrow> parse_int 64 (t ! 0);
     mi \<leftarrow> (if 1 < length t then parse_int 64 (t ! 1) else None);
     se \<leftarrow> parse_int 64 (if 2 < length t then t ! 2 else ''0'');
     Some (y, mo, da, h, mi, se) }"

definition parse_iso :: "string \<Rightarrow> nat option" where
  "parse_iso s =
     (case iso_fields s of
        None \<Rightarrow> None
      | Some (y, mo, da, h, mi, se) \<Rightarrow>
          if \<not> (0 \<le> y \<and> y \<le> 9999) \<or> \<not> (1 \<le> mo \<and> mo \<le> 12) \<or> \<not> (1 \<le> da \<and> da \<le> 31)
             \<or> \<not> (0 \<le> h \<and> h \<le> 23) \<or> \<not> (0 \<le> mi \<and> mi \<le> 59) \<or> \<not> (0 \<le> se \<and> se \<le> 60)
          then None
          else Some (nat (max (days_from_civil y mo da * 86400 + h * 3600 + mi * 60 + se) 0)))"

section \<open>The calendar\<close>

lemma rdiv_div [simp]: "a \<ge> 0 \<Longrightarrow> rdiv a b = a div b"
  by (simp add: rdiv_def)

text \<open>A century of the era after the first \<open>36524 * c\<close> days, with the leap-day count \<open>q\<close>.\<close>

lemma century_year:
  fixes c r q y u a s :: int
  assumes c: "0 \<le> c" "c \<le> 3" and r: "0 \<le> r" "r < 36524"
    and q: "1460 * q \<le> 24 * c + r" "24 * c + r < 1460 * q + 1460"
    and y: "r - q = 365 * y + u" "0 \<le> u" "u < 365"
    and a: "y = 4 * a + s" "0 \<le> s" "s < 4"
  shows "0 \<le> y" and "y \<le> 99" and "0 \<le> r - (365 * y + a)" and "r - (365 * y + a) \<le> 365"
proof -
  have q0: "0 \<le> q" "q \<le> 25" using c r q by linarith+
  show y0: "0 \<le> y"
  proof (rule ccontr)
    assume "\<not> 0 \<le> y"
    then have "r - q < 0" using y by linarith
    then have "r < 25" using q0 by linarith
    then have "q = 0" using c q q0 by linarith
    then show False using \<open>r - q < 0\<close> r by linarith
  qed
  show "y \<le> 99"
  proof (rule ccontr)
    assume "\<not> y \<le> 99"
    then have "r - q \<ge> 36500" using y by linarith
    then have "q = 25" using q q0 c by linarith
    then show False using \<open>r - q \<ge> 36500\<close> r by linarith
  qed
  have "q \<ge> a"
  proof (rule ccontr)
    assume "\<not> q \<ge> a"
    then have "1460 * a \<ge> 1460 * q + 1460" by linarith
    then show False using q y a c q0 by linarith
  qed
  moreover have "q \<le> a + 1"
  proof (rule ccontr)
    assume "\<not> q \<le> a + 1"
    then have "1460 * q \<ge> 1460 * a + 2920" by linarith
    then show False using q y a c q0 by linarith
  qed
  moreover have "r - (365 * y + a) = u + q - a" using y by linarith
  ultimately show "0 \<le> r - (365 * y + a)" "r - (365 * y + a) \<le> 365" using y(2,3) by linarith+
qed

lemma year_of_era:
  fixes doe :: int
  assumes "0 \<le> doe" and "doe < 146097"
  defines "yoe \<equiv> (doe - doe div 1460 + doe div 36524 - doe div 146096) div 365"
  shows "0 \<le> yoe \<and> yoe \<le> 399
     \<and> 0 \<le> doe - (365 * yoe + yoe div 4 - yoe div 100)
     \<and> doe - (365 * yoe + yoe div 4 - yoe div 100) \<le> 365"
proof (cases "doe = 146096")
  case True
  show ?thesis unfolding yoe_def True by simp
next
  case False
  define c where "c = doe div 36524"
  define r where "r = doe mod 36524"
  define q where "q = (24 * c + r) div 1460"
  define y where "y = (r - q) div 365"
  have doe: "doe = 36524 * c + r" and r: "0 \<le> r" "r < 36524" by (simp_all add: c_def r_def)
  have c: "0 \<le> c" "c \<le> 3" using assms False by (simp_all add: c_def)
  have "doe = (24 * c + r) + 1460 * (25 * c)" using doe by simp
  then have "doe div 1460 = 25 * c + q"
    unfolding q_def by (metis add.commute div_mult_self2 zero_neq_numeral)
  moreover have "doe div 146096 = 0" using assms False by simp
  ultimately have "yoe = (r - q + 365 * (100 * c)) div 365"
    unfolding yoe_def c_def [symmetric] using doe by (simp add: algebra_simps)
  then have yoe: "yoe = 100 * c + y" by (simp add: y_def)
  have parts: "1460 * q \<le> 24 * c + r" "24 * c + r < 1460 * q + 1460"
    "r - q = 365 * y + (r - q) mod 365" "0 \<le> (r - q) mod 365" "(r - q) mod 365 < 365"
    "y = 4 * (y div 4) + y mod 4" "0 \<le> y mod 4" "y mod 4 < 4"
    using mult_div_mod_eq [of 1460 "24 * c + r"] pos_mod_bound [of 1460 "24 * c + r"]
      pos_mod_sign [of 1460 "24 * c + r"]
    by (simp_all add: q_def y_def)
  note year = century_year [OF c r parts]
  have "yoe div 4 = 25 * c + y div 4" "yoe div 100 = c"
    using yoe year(1,2) by simp_all
  then have "365 * yoe + yoe div 4 - yoe div 100 = 36524 * c + (365 * y + y div 4)"
    using yoe by simp
  then show ?thesis using year yoe doe c by auto
qed

lemma day_of_year:
  fixes doy :: int
  assumes "0 \<le> doy" and "doy \<le> 365"
  defines "mp \<equiv> (5 * doy + 2) div 153"
  shows "0 \<le> mp \<and> mp \<le> 11 \<and> 1 \<le> doy - (153 * mp + 2) div 5 + 1 \<and> doy - (153 * mp + 2) div 5 + 1 \<le> 31
     \<and> (mp \<ge> 10 \<longrightarrow> doy \<ge> 306)"
proof -
  have "153 * mp \<le> 5 * doy + 2" "5 * doy + 2 < 153 * mp + 153"
    using mult_div_mod_eq [of 153 "5 * doy + 2"] pos_mod_bound [of 153 "5 * doy + 2"]
      pos_mod_sign [of 153 "5 * doy + 2"] by (simp_all add: mp_def)
  moreover have "5 * ((153 * mp + 2) div 5) \<le> 153 * mp + 2" "153 * mp + 2 < 5 * ((153 * mp + 2) div 5) + 5"
    using mult_div_mod_eq [of 5 "153 * mp + 2"] pos_mod_bound [of 5 "153 * mp + 2"]
      pos_mod_sign [of 5 "153 * mp + 2"] by simp_all
  ultimately show ?thesis using assms(1,2) by (intro conjI impI) linarith+
qed

text \<open>The date part of \<open>civil\<close> over the day number of the shifted calendar.\<close>

definition civil_date :: "int \<Rightarrow> int \<times> int \<times> int" where
  "civil_date z =
     (let era = z div 146097; doe = z mod 146097;
          yoe = (doe - doe div 1460 + doe div 36524 - doe div 146096) div 365;
          doy = doe - (365 * yoe + yoe div 4 - yoe div 100);
          mp = (5 * doy + 2) div 153;
          m = (if mp < 10 then mp + 3 else mp - 9)
      in ((if m \<le> 2 then yoe + era * 400 + 1 else yoe + era * 400), m, doy - (153 * mp + 2) div 5 + 1))"

lemma civil_date_correct:
  assumes "0 \<le> z" and "civil_date z = (y, m, d)"
  shows "days_from_civil y m d = z - 719468 \<and> 1 \<le> m \<and> m \<le> 12 \<and> 1 \<le> d \<and> d \<le> 31 \<and> 0 \<le> y
     \<and> (z < 3652365 \<longrightarrow> y \<le> 9999)"
proof -
  define era where "era = z div 146097"
  define doe where "doe = z mod 146097"
  define yoe where "yoe = (doe - doe div 1460 + doe div 36524 - doe div 146096) div 365"
  define doy where "doy = doe - (365 * yoe + yoe div 4 - yoe div 100)"
  define mp where "mp = (5 * doy + 2) div 153"
  have z: "z = era * 146097 + doe" "0 \<le> doe" "doe < 146097" "0 \<le> era"
    using assms(1) by (simp_all add: era_def doe_def)
  have yoe: "0 \<le> yoe" "yoe \<le> 399" and doy: "0 \<le> doy" "doy \<le> 365"
    using year_of_era [OF z(2,3)] by (simp_all add: doy_def yoe_def)
  have mp: "0 \<le> mp" "mp \<le> 11" "1 \<le> doy - (153 * mp + 2) div 5 + 1" "doy - (153 * mp + 2) div 5 + 1 \<le> 31"
    "mp \<ge> 10 \<Longrightarrow> doy \<ge> 306"
    using day_of_year [OF doy] by (simp_all add: mp_def)
  have res: "m = (if mp < 10 then mp + 3 else mp - 9)" "d = doy - (153 * mp + 2) div 5 + 1"
    "y = (if m \<le> 2 then yoe + era * 400 + 1 else yoe + era * 400)"
    using assms(2) unfolding civil_date_def Let_def era_def [symmetric] doe_def [symmetric]
      yoe_def [symmetric] doy_def [symmetric] mp_def [symmetric] by auto
  have yy: "y - (if m \<le> 2 then 1 else 0) = yoe + era * 400" using res by simp
  have "(if m > 2 then m - 3 else m + 9) = mp" using res(1) mp by auto
  moreover have "(yoe + era * 400) div 400 = era" using yoe by simp
  moreover have "0 \<le> yoe + era * 400" using yoe z by simp
  ultimately have "days_from_civil y m d = era * 146097 + (yoe * 365 + yoe div 4 - yoe div 100 + doy) - 719468"
    using yoe mp res(2) unfolding days_from_civil_def Let_def yy by simp
  also have "\<dots> = z - 719468" using z(1) by (simp add: doy_def)
  finally have "days_from_civil y m d = z - 719468" .
  moreover have "y \<le> 9999" if "z < 3652365"
  proof (cases "era = 24 \<and> yoe = 399 \<and> mp \<ge> 10")
    case True
    then have "doe \<ge> 146037" using mp(5) by (simp add: doy_def)
    then show ?thesis using True that z(1) by simp
  next
    case False
    have "era \<le> 24" using that z by simp
    then show ?thesis using False yoe res mp by (auto split: if_splits)
  qed
  ultimately show ?thesis using res mp yoe z by auto
qed

lemma civil_split:
  "civil secs =
     (case civil_date (int (secs div 86400) + 719468) of (y, m, d) \<Rightarrow>
        (y, m, d, secs mod 86400 div 3600, secs mod 3600 div 60, secs mod 60))"
proof -
  define z where "z = int (secs div 86400) + 719468"
  define era where "era = z div 146097"
  define doe where "doe = z mod 146097"
  define yoe where "yoe = (doe - doe div 1460 + doe div 36524 - doe div 146096) div 365"
  define doy where "doy = doe - (365 * yoe + yoe div 4 - yoe div 100)"
  define mp where "mp = (5 * doy + 2) div 153"
  have z: "0 \<le> z" "0 \<le> doe" "doe < 146097" "z - era * 146097 = doe"
    by (simp_all add: z_def doe_def era_def minus_div_mult_eq_mod)
  have yoe: "0 \<le> yoe" and doy: "0 \<le> doy" "doy \<le> 365"
    using year_of_era [OF z(2,3)] by (simp_all add: doy_def yoe_def)
  have mp: "0 \<le> mp" using day_of_year [OF doy] by (simp add: mp_def)
  have num: "0 \<le> doe - doe div 1460 + doe div 36524 - doe div 146096"
    using yoe by (simp add: yoe_def pos_imp_zdiv_nonneg_iff)
  have "0 \<le> 5 * doy + 2" "0 \<le> 153 * mp + 2" using doy mp by linarith+
  note nonneg = z(1,2) num yoe this
  have r: "rdiv (if z \<ge> 0 then z else z - 146096) 146097 = era"
    "rdiv doe 1460 = doe div 1460" "rdiv doe 36524 = doe div 36524" "rdiv doe 146096 = doe div 146096"
    "rdiv (doe - doe div 1460 + doe div 36524 - doe div 146096) 365 = yoe"
    "rdiv yoe 4 = yoe div 4" "rdiv yoe 100 = yoe div 100" "rdiv (5 * doy + 2) 153 = mp"
    "rdiv (153 * mp + 2) 5 = (153 * mp + 2) div 5"
    by (simp_all only: nonneg rdiv_div if_True era_def [symmetric] yoe_def [symmetric] mp_def [symmetric])
  show ?thesis
    unfolding civil_def civil_date_def Let_def z_def [symmetric] era_def [symmetric] doe_def [symmetric]
      yoe_def [symmetric] doy_def [symmetric] mp_def [symmetric] r z(4) by simp
qed

lemma civil_correct:
  assumes "civil secs = (y, m, d, h, mi, s)"
  shows "days_from_civil y m d = int (secs div 86400)" and "1 \<le> m \<and> m \<le> 12" and "1 \<le> d \<and> d \<le> 31"
    and "h \<le> 23 \<and> mi \<le> 59 \<and> s \<le> 59" and "secs mod 86400 = h * 3600 + mi * 60 + s"
    and "0 \<le> y" and "secs < 253402300800 \<Longrightarrow> y \<le> 9999"
proof -
  let ?z = "int (secs div 86400) + 719468"
  have date: "civil_date ?z = (y, m, d)"
    and clock: "h = secs mod 86400 div 3600" "mi = secs mod 3600 div 60" "s = secs mod 60"
    using assms by (auto simp: civil_split split: prod.splits)
  note c = civil_date_correct [OF _ date]
  show "days_from_civil y m d = int (secs div 86400)" "1 \<le> m \<and> m \<le> 12" "1 \<le> d \<and> d \<le> 31" "0 \<le> y"
    using c by simp_all
  have "?z < 3652365" if "secs < 253402300800" using that by (simp add: less_mult_imp_div_less)
  then show "secs < 253402300800 \<Longrightarrow> y \<le> 9999" using c by simp
  show "h \<le> 23 \<and> mi \<le> 59 \<and> s \<le> 59" by (simp add: clock less_Suc_eq_le [symmetric] less_mult_imp_div_less)
  have "secs mod 3600 = secs mod 86400 mod 3600" "secs mod 60 = secs mod 86400 mod 3600 mod 60"
    by (simp_all add: mod_mod_cancel)
  then show "secs mod 86400 = h * 3600 + mi * 60 + s"
    unfolding clock by (metis add.assoc div_mult_mod_eq)
qed

section \<open>Printing and reading a timestamp\<close>

lemma digits_fresh:
  assumes "\<not> is_ascii_digit c"
  shows "c \<notin> set (show_pad w n)"
  using assms show_pad_digits [of w n] by (auto simp: list_all_iff)

lemma parse_int_pad_int:
  assumes "0 \<le> i" and "i < 10000"
  shows "parse_int 64 (show_pad k (nat i)) = Some i"
  using assms parse_int_pad [of "nat i" 64 k] by (simp add: nat_less_iff)

lemma iso_fields_iso_time:
  assumes "civil secs = (y, m, d, h, mi, s)" and "secs < 253402300800"
  shows "iso_fields (iso_time secs) = Some (y, m, d, int h, int mi, int s)"
proof -
  have sep: "\<not> is_ascii_digit (CHR ''T'')" "\<not> is_ascii_digit (CHR ''-'')" "\<not> is_ascii_digit (CHR ''.'')"
    "\<not> is_ascii_digit (CHR '':'')"
    by code_simp+
  note fresh = sep [THEN digits_fresh]
  note c = civil_correct [OF assms(1)]
  let ?date = "show_pad 4 (nat y) @ CHR ''-'' # show_pad 2 (nat m) @ CHR ''-'' # show_pad 2 (nat d)"
  let ?clock = "show_pad 2 h @ CHR '':'' # show_pad 2 mi @ CHR '':'' # show_pad 2 s"
  have "iso_time secs = ?date @ CHR ''T'' # (?clock @ ''.000Z'')"
    using assms(1) by (simp add: iso_time_def)
  then have "split_once (CHR ''T'') (iso_time secs) = Some (?date, ?clock @ ''.000Z'')"
    by (simp only:) (rule split_once_append, simp add: fresh)
  moreover have "split_char (CHR ''-'') ?date = [show_pad 4 (nat y), show_pad 2 (nat m), show_pad 2 (nat d)]"
    by (simp add: split_char_append split_char_fresh fresh)
  moreover have "trim_end_char (CHR ''Z'') (?clock @ ''.000Z'') = ?clock @ CHR ''.'' # ''000''"
    by (simp add: trim_end_char_def)
  moreover have "split_char (CHR ''.'') (?clock @ CHR ''.'' # ''000'') ! 0 = ?clock"
    by (subst split_char_append) (simp_all add: fresh)
  moreover have "split_char (CHR '':'') ?clock = [show_pad 2 h, show_pad 2 mi, show_pad 2 s]"
    by (simp add: split_char_append split_char_fresh fresh)
  moreover have "parse_int 64 (show_pad 4 (nat y)) = Some y" "parse_int 64 (show_pad 2 (nat m)) = Some m"
    "parse_int 64 (show_pad 2 (nat d)) = Some d" "parse_int 64 (show_pad 2 h) = Some (int h)"
    "parse_int 64 (show_pad 2 mi) = Some (int mi)" "parse_int 64 (show_pad 2 s) = Some (int s)"
    using c assms(2) by (simp_all add: parse_int_pad parse_int_pad_int)
  ultimately show ?thesis by (simp add: iso_fields_def)
qed

text \<open>C26: A \<open>server-time\<close> value reads back as the second it was printed from, for every timestamp
  up to the end of the year 9999, and the printed date is a real one.\<close>

theorem parse_iso_iso_time:
  assumes "t < 253402300800"
  shows "parse_iso (iso_time t) = Some t"
proof -
  obtain y m d h mi s where civil: "civil t = (y, m, d, h, mi, s)" by (cases "civil t") auto
  note c = civil_correct [OF civil]
  have "days_from_civil y m d * 86400 + int h * 3600 + int mi * 60 + int s
      = int (t div 86400 * 86400 + (h * 3600 + mi * 60 + s))"
    using c(1) by simp
  also have "\<dots> = int t" unfolding c(5) [symmetric] by (simp only: div_mult_mod_eq)
  finally show ?thesis
    using c assms by (simp add: parse_iso_def iso_fields_iso_time [OF civil assms])
qed

theorem parse_iso_iso_time_witness:
  "parse_iso (iso_time 1767225599) = Some 1767225599 \<and> iso_time 1767225599 = ''2025-12-31T23:59:59.000Z''"
proof
  show "parse_iso (iso_time 1767225599) = Some 1767225599" by (rule parse_iso_iso_time) simp
  have "civil_date 739921 = (2025, 12, 31)" by code_simp
  then have "civil 1767225599 = (2025, 12, 31, 23, 59, 59)" by (simp add: civil_split)
  then show "iso_time 1767225599 = ''2025-12-31T23:59:59.000Z''"
    by (simp add: iso_time_def show_pad_def show_nat.simps digit_char_eval)
qed

end
