(* ===== verification/Glob.thy ===== *)
theory Glob
  imports Prelude
begin

text \<open>
  The glob matcher of \<open>src/channels.rs\<close> (\<open>glob_bytes\<close>, \<open>glob_chars\<close>, \<open>glob_match\<close>), which
  decides every ban, exception, x-line and extban of the program, with the mask helpers
  \<open>normalize_mask\<close> and \<open>normalize_ban_mask\<close> and the name validators of \<open>src/users.rs\<close> and
  \<open>src/channels.rs\<close>.

  The matcher is a loop over two cursors with one backtracking point.  The Rust code has it twice,
  over bytes and over characters; \<open>glob_loop\<close> is that loop with the comparison of two symbols, the
  symbol \<open>?\<close> and the symbol \<open>*\<close> as arguments.  The locale \<open>glob_alphabet\<close> states what the loop needs of its
  alphabet and proves it equal to the declarative \<open>glob_spec\<close>; both instances interpret it.
\<close>

section \<open>The matching loop\<close>

text \<open>Cursors \<open>pi\<close>, \<open>ti\<close>, the position \<open>star\<close> of the last \<open>*\<close> and the text position \<open>mark\<close> it is
  expanded to.  \<open>None\<close> is the early \<open>return false\<close>, \<open>Some pi\<close> the cursor at the end of the text.\<close>

function glob_loop ::
  "('a \<Rightarrow> 'a \<Rightarrow> bool) \<Rightarrow> 'a \<Rightarrow> 'a \<Rightarrow> 'a list \<Rightarrow> 'a list \<Rightarrow> nat \<Rightarrow> nat \<Rightarrow> nat option \<Rightarrow> nat \<Rightarrow> nat option"
where
  "glob_loop eqc q st p t pi ti star mark =
     (if ti < length t then
        if pi < length p \<and> (p ! pi = q \<or> eqc (p ! pi) (t ! ti))
        then glob_loop eqc q st p t (pi + 1) (ti + 1) star mark
        else if pi < length p \<and> p ! pi = st
        then glob_loop eqc q st p t (pi + 1) ti (Some pi) ti
        else case star of
               Some sp \<Rightarrow> glob_loop eqc q st p t (sp + 1) (mark + 1) star (mark + 1)
             | None \<Rightarrow> None
      else Some pi)"
  by pat_completeness auto
termination
  by (relation "measures
       [\<lambda>(eqc, q, st, p, t, pi, ti, star, mark). if ti < mark then 1 else 0,
        \<lambda>(eqc, q, st, p, t, pi, ti, star, mark). length t - mark,
        \<lambda>(eqc, q, st, p, t, pi, ti, star, mark). length t - ti,
        \<lambda>(eqc, q, st, p, t, pi, ti, star, mark). length p - pi]") auto

declare glob_loop.simps [simp del]

text \<open>The trailing loop: skip the stars left over, then the whole pattern must be used up.\<close>

definition glob_finish :: "'a \<Rightarrow> 'a list \<Rightarrow> nat option \<Rightarrow> bool" where
  "glob_finish st p r =
     (case r of None \<Rightarrow> False | Some pi \<Rightarrow> dropWhile (\<lambda>c. c = st) (drop pi p) = [] \<and> pi \<le> length p)"

definition byte_eq :: "char \<Rightarrow> char \<Rightarrow> bool" where
  "byte_eq a b \<longleftrightarrow> ascii_low a = ascii_low b"

definition glob_bytes :: "string \<Rightarrow> string \<Rightarrow> bool" where
  "glob_bytes p t =
     glob_finish (CHR ''*'') p (glob_loop byte_eq (CHR ''?'') (CHR ''*'') p t 0 0 None 0)"

definition glob_chars :: "uchar list \<Rightarrow> uchar list \<Rightarrow> bool" where
  "glob_chars p t = glob_finish ''*'' p (glob_loop (=) ''?'' ''*'' p t 0 0 None 0)"

section \<open>What a glob means\<close>

text \<open>A star stands for any run of symbols, a question mark for one symbol.\<close>

fun glob_spec :: "('a \<Rightarrow> 'a \<Rightarrow> bool) \<Rightarrow> 'a \<Rightarrow> 'a \<Rightarrow> 'a list \<Rightarrow> 'a list \<Rightarrow> bool" where
  "glob_spec eqc q st [] t = (t = [])"
| "glob_spec eqc q st (c # p) t =
     (if c = st then (\<exists>k \<le> length t. glob_spec eqc q st p (drop k t))
      else case t of [] \<Rightarrow> False | x # t' \<Rightarrow> (c = q \<or> eqc c x) \<and> glob_spec eqc q st p t')"

lemma ex_from_split:
  fixes a n :: nat
  shows "(\<exists>k. a \<le> k \<and> k \<le> n \<and> P k) \<longleftrightarrow> a \<le> n \<and> P a \<or> (\<exists>k. a < k \<and> k \<le> n \<and> P k)"
  by (metis le_less)

text \<open>What the loop relies on: the wildcard symbols differ, and the star compares equal to itself
  only.\<close>

locale glob_alphabet =
  fixes eqc :: "'a \<Rightarrow> 'a \<Rightarrow> bool" and q :: 'a and st :: 'a
  assumes q_neq_st: "q \<noteq> st"
    and star_eq: "eqc st x \<Longrightarrow> x = st"
begin

abbreviation G :: "'a list \<Rightarrow> 'a list \<Rightarrow> bool" where
  "G \<equiv> glob_spec eqc q st"

lemma G_star_drop:
  "i \<le> length t \<Longrightarrow> G (st # p) (drop i t) \<longleftrightarrow> (\<exists>k. i \<le> k \<and> k \<le> length t \<and> G p (drop k t))"
proof
  assume "i \<le> length t" "G (st # p) (drop i t)"
  then obtain k where "k \<le> length t - i" "G p (drop (k + i) t)" by auto
  then show "\<exists>k. i \<le> k \<and> k \<le> length t \<and> G p (drop k t)"
    using \<open>i \<le> length t\<close> by (intro exI [of _ "k + i"]) simp
next
  assume "i \<le> length t" "\<exists>k. i \<le> k \<and> k \<le> length t \<and> G p (drop k t)"
  then obtain k where "i \<le> k" "k \<le> length t" "G p (drop k t)" by blast
  then show "G (st # p) (drop i t)"
    by (auto intro!: exI [of _ "k - i"])
qed

lemma G_star_mono:
  "G (st # p) (drop j t) \<Longrightarrow> i \<le> j \<Longrightarrow> j \<le> length t \<Longrightarrow> G (st # p) (drop i t)"
  by (meson G_star_drop le_trans)

lemma G_all_stars: "G p [] \<longleftrightarrow> dropWhile (\<lambda>c. c = st) p = []"
  by (induction p) (auto simp: q_neq_st)

text \<open>A star-free stretch of the pattern uses up one symbol of the text each.\<close>

lemma G_segment:
  "st \<notin> set seg \<Longrightarrow> G (seg @ p) t \<Longrightarrow> length seg \<le> length t \<and> G p (drop (length seg) t)"
  by (induction seg arbitrary: t) (auto split: list.splits)

definition star_inv :: "'a list \<Rightarrow> nat \<Rightarrow> nat \<Rightarrow> nat \<Rightarrow> nat \<Rightarrow> bool" where
  "star_inv p pi ti mark sp \<longleftrightarrow> p ! sp = st \<and>
     (\<exists>n. pi = Suc sp + n \<and> ti = mark + n \<and> st \<notin> set (take n (drop (Suc sp) p)))"

lemma G_skip:
  assumes "star_inv p pi ti mark sp" and "pi \<le> length p" and "G (drop (Suc sp) p) (drop k t)"
  shows "ti - mark \<le> length t - k \<and> G (drop pi p) (drop (ti - mark + k) t)"
proof -
  obtain n where n: "pi = Suc sp + n" "ti = mark + n" "st \<notin> set (take n (drop (Suc sp) p))"
    using assms(1) by (auto simp: star_inv_def)
  have "drop (Suc sp) p = take n (drop (Suc sp) p) @ drop pi p"
    unfolding n(1) by (metis add.commute append_take_drop_id drop_drop)
  then show ?thesis
    using G_segment [OF n(3), of "drop pi p" "drop k t"] assms(2,3) n(1,2) by simp
qed

lemma star_inv_step:
  assumes "star_inv p pi ti mark sp" and "pi < length p" and "p ! pi \<noteq> st"
  shows "star_inv p (Suc pi) (Suc ti) mark sp"
proof -
  obtain n where n: "pi = Suc sp + n" "ti = mark + n" "st \<notin> set (take n (drop (Suc sp) p))"
    using assms(1) by (auto simp: star_inv_def)
  have "take (Suc n) (drop (Suc sp) p) = take n (drop (Suc sp) p) @ [p ! pi]"
    using assms(2) n(1) by (simp add: take_Suc_conv_app_nth)
  then have "st \<notin> set (take (Suc n) (drop (Suc sp) p))" using assms(3) n(3) by simp
  then show ?thesis using assms(1) n unfolding star_inv_def by (metis add_Suc_right)
qed

lemma glob_loop_correct:
  assumes "st \<notin> set t" and "ti \<le> length t" and "pi \<le> length p"
    and "\<And>sp. star = Some sp \<Longrightarrow> star_inv p pi ti mark sp"
  shows "glob_finish st p (glob_loop eqc q st p t pi ti star mark) \<longleftrightarrow>
           G (drop pi p) (drop ti t)
           \<or> (\<exists>sp k. star = Some sp \<and> mark < k \<and> k \<le> length t \<and> G (drop (Suc sp) p) (drop k t))"
  using assms
proof (induction a \<equiv> eqc b \<equiv> q c \<equiv> st p t pi ti star mark rule: glob_loop.induct)
  case (1 p t pi ti star mark)
  let ?X = "\<exists>sp k. star = Some sp \<and> mark < k \<and> k \<le> length t \<and> G (drop (Suc sp) p) (drop k t)"
  note inv = 1(4,5,6,7)
  consider (fin) "\<not> ti < length t"
    | (one) "ti < length t" "pi < length p" "p ! pi = q \<or> eqc (p ! pi) (t ! ti)"
    | (wild) "ti < length t" "pi < length p" "\<not> (p ! pi = q \<or> eqc (p ! pi) (t ! ti))" "p ! pi = st"
    | (retry) "ti < length t" "\<not> (pi < length p \<and> (p ! pi = q \<or> eqc (p ! pi) (t ! ti)))"
        "\<not> (pi < length p \<and> p ! pi = st)"
    by blast
  then show ?case
  proof cases
    case fin
    then have ti: "ti = length t" using inv(2) by simp
    have "\<not> ?X"
    proof
      assume ?X
      then obtain sp k where sp: "star = Some sp" "mark < k" "k \<le> length t"
        "G (drop (Suc sp) p) (drop k t)" by blast
      show False using G_skip [OF inv(4) [OF sp(1)] inv(3) sp(4)] sp ti inv by auto
    qed
    moreover have "glob_finish st p (glob_loop eqc q st p t pi ti star mark) = G (drop pi p) (drop ti t)"
      using ti inv(3) by (subst glob_loop.simps) (simp add: glob_finish_def G_all_stars)
    ultimately show ?thesis by blast
  next
    case one
    then have "p ! pi \<noteq> st" using star_eq q_neq_st inv(1) nth_mem by metis
    then have "G (drop pi p) (drop ti t) = G (drop (pi + 1) p) (drop (ti + 1) t)"
      using one by (simp add: Cons_nth_drop_Suc [symmetric])
    moreover have "star_inv p (pi + 1) (ti + 1) mark sp" if "star = Some sp" for sp
      using star_inv_step [OF inv(4) [OF that] one(2)] \<open>p ! pi \<noteq> st\<close> by simp
    ultimately show ?thesis
      using 1(1) one inv by (subst glob_loop.simps) simp
  next
    case wild
    have "star_inv p (pi + 1) ti ti pi" using wild by (simp add: star_inv_def)
    then have "glob_finish st p (glob_loop eqc q st p t pi ti star mark) \<longleftrightarrow>
        (\<exists>k. ti \<le> k \<and> k \<le> length t \<and> G (drop (Suc pi) p) (drop k t))"
      unfolding ex_from_split using 1(2) wild inv by (subst glob_loop.simps) simp
    also have "\<dots> \<longleftrightarrow> G (drop pi p) (drop ti t)"
      using G_star_drop [of ti t "drop (Suc pi) p"] inv(2) wild by (simp add: Cons_nth_drop_Suc [symmetric])
    also have "\<dots> \<longleftrightarrow> G (drop pi p) (drop ti t) \<or> ?X"
    proof -
      have "G (drop pi p) (drop ti t)" if sp: "star = Some sp" "mark < k" "k \<le> length t"
        "G (drop (Suc sp) p) (drop k t)" for sp k
      proof -
        have "G (drop pi p) (drop (ti - mark + k) t)" "ti - mark + k \<le> length t" "ti \<le> ti - mark + k"
          using G_skip [OF inv(4) [OF sp(1)] inv(3) sp(4)] sp by auto
        moreover have "drop pi p = st # drop (Suc pi) p" using wild by (simp add: Cons_nth_drop_Suc [symmetric])
        ultimately show ?thesis using G_star_mono by metis
      qed
      then show ?thesis by blast
    qed
    finally show ?thesis .
  next
    case retry
    have no: "\<not> G (drop pi p) (drop ti t)"
      using retry by (cases "pi < length p") (auto simp: Cons_nth_drop_Suc [symmetric])
    show ?thesis
    proof (cases star)
      case None
      then show ?thesis using no retry by (subst glob_loop.simps) (auto simp: glob_finish_def)
    next
      case (Some sp)
      have "star_inv p (sp + 1) (mark + 1) (mark + 1) sp" and bounds: "mark + 1 \<le> length t" "sp + 1 \<le> length p"
        using inv(3) inv(4) [OF Some] retry(1) by (auto simp: star_inv_def)
      moreover have "glob_loop eqc q st p t pi ti star mark
          = glob_loop eqc q st p t (sp + 1) (mark + 1) star (mark + 1)"
        using retry Some by (subst glob_loop.simps) auto
      ultimately have "glob_finish st p (glob_loop eqc q st p t pi ti star mark) \<longleftrightarrow>
          (\<exists>k. mark + 1 \<le> k \<and> k \<le> length t \<and> G (drop (Suc sp) p) (drop k t))"
        unfolding ex_from_split using 1(3) retry inv bounds Some by simp
      then show ?thesis using no Some by (simp add: Suc_le_eq)
    qed
  qed
qed

corollary glob_correct:
  "st \<notin> set t \<Longrightarrow> glob_finish st p (glob_loop eqc q st p t 0 0 None 0) \<longleftrightarrow> G p t"
  using glob_loop_correct [of t 0 0 p None 0] by simp

end

section \<open>The two instances\<close>

interpretation byte_glob: glob_alphabet byte_eq "CHR ''?''" "CHR ''*''"
proof unfold_locales
  fix x assume "byte_eq (CHR ''*'') x"
  moreover have "ascii_low (CHR ''*'') = CHR ''*''" by code_simp
  moreover have "\<not> is_ascii_alphabetic (CHR ''*'')" by code_simp
  ultimately show "x = CHR ''*''" unfolding byte_eq_def by (metis ascii_low_eq_nonletter)
qed simp

interpretation char_glob: glob_alphabet "(=)" "''?''" "''*''"
  by unfold_locales auto

text \<open>Renaming the symbols by an injection that respects the comparison does not change a run.\<close>

lemma glob_loop_map:
  assumes "\<And>a b. a \<in> set p \<Longrightarrow> b \<in> set t \<Longrightarrow> eqc' (f a) (f b) = eqc a b"
    and "\<And>a. a \<in> set p \<Longrightarrow> f a = q' \<longleftrightarrow> a = q" and "\<And>a. a \<in> set p \<Longrightarrow> f a = st' \<longleftrightarrow> a = st"
  shows "glob_loop eqc' q' st' (map f p) (map f t) pi ti star mark
           = glob_loop eqc q st p t pi ti star mark"
  using assms
proof (induction eqc q st p t pi ti star mark rule: glob_loop.induct)
  case (1 eqc q st p t pi ti star mark)
  note hyps = 1(4-6)
  have one: "map f p ! pi = q' \<or> eqc' (map f p ! pi) (map f t ! ti) \<longleftrightarrow> p ! pi = q \<or> eqc (p ! pi) (t ! ti)"
    and wild: "map f p ! pi = st' \<longleftrightarrow> p ! pi = st" if "pi < length p" "ti < length t"
    using that hyps by (simp_all add: nth_mem)
  let ?L = "glob_loop eqc' q' st' (map f p) (map f t)" and ?R = "glob_loop eqc q st p t"
  consider "\<not> ti < length t"
    | "ti < length t" "pi < length p" "p ! pi = q \<or> eqc (p ! pi) (t ! ti)"
    | "ti < length t" "pi < length p" "\<not> (p ! pi = q \<or> eqc (p ! pi) (t ! ti))" "p ! pi = st"
    | "ti < length t" "\<not> (pi < length p \<and> (p ! pi = q \<or> eqc (p ! pi) (t ! ti)))"
        "\<not> (pi < length p \<and> p ! pi = st)"
    by blast
  then show ?case
  proof cases
    case 1
    then show ?thesis by (subst (1 2) glob_loop.simps) simp
  next
    case 2
    then have "?L pi ti star mark = ?L (pi + 1) (ti + 1) star mark"
      using one by (subst glob_loop.simps) simp
    also have "\<dots> = ?R (pi + 1) (ti + 1) star mark" using 2 hyps by (intro "1.IH"(1)) auto
    also have "\<dots> = ?R pi ti star mark" using 2 by (subst (2) glob_loop.simps) simp
    finally show ?thesis .
  next
    case 3
    then have "?L pi ti star mark = ?L (pi + 1) ti (Some pi) ti"
      using one wild by (subst glob_loop.simps) simp
    also have "\<dots> = ?R (pi + 1) ti (Some pi) ti" using 3 hyps by (intro "1.IH"(2)) auto
    also have "\<dots> = ?R pi ti star mark" using 3 by (subst (2) glob_loop.simps) simp
    finally show ?thesis .
  next
    case 4
    have "?L pi ti star mark = (case star of Some sp \<Rightarrow> ?L (sp + 1) (mark + 1) star (mark + 1) | None \<Rightarrow> None)"
      using 4 one wild by (subst glob_loop.simps) auto
    also have "\<dots> = (case star of Some sp \<Rightarrow> ?R (sp + 1) (mark + 1) star (mark + 1) | None \<Rightarrow> None)"
      using 4 hyps "1.IH"(3) by (auto split: option.split)
    also have "\<dots> = ?R pi ti star mark" using 4 by (subst (2) glob_loop.simps) auto
    finally show ?thesis .
  qed
qed

lemma glob_finish_map:
  assumes "\<And>a. a \<in> set p \<Longrightarrow> f a = st' \<longleftrightarrow> a = st"
  shows "glob_finish st' (map f p) r = glob_finish st p r"
  using assms by (auto simp: glob_finish_def drop_map dest: in_set_dropD split: option.split)

text \<open>\<open>glob_match\<close>: \<open>lower\<close> is \<open>str::to_lowercase\<close>, the full Unicode case mapping.\<close>

definition glob_match :: "(string \<Rightarrow> string) \<Rightarrow> string \<Rightarrow> string \<Rightarrow> bool" where
  "glob_match lower pat s =
     (if is_ascii pat \<and> is_ascii s then glob_bytes pat s
      else glob_chars (utf8_chars (lower pat)) (utf8_chars (lower s)))"

section \<open>Masks and names\<close>

definition normalize_mask :: "string \<Rightarrow> string" where
  "normalize_mask m =
     (case (CHR ''!'' \<in> set m, CHR ''@'' \<in> set m) of
        (True, True) \<Rightarrow> m
      | (False, True) \<Rightarrow> ''*!'' @ m
      | (True, False) \<Rightarrow> m @ ''@*''
      | (False, False) \<Rightarrow> m @ ''!*@*'')"

text \<open>The extbans whose argument is a name, not a host mask.\<close>

definition plain_extban :: "char \<Rightarrow> bool" where
  "plain_extban c \<longleftrightarrow> c \<in> set ''agyrjsGbC''"

definition normalize_ban_mask :: "string \<Rightarrow> string" where
  "normalize_ban_mask m =
     (case m of
        b0 # b1 # rest \<Rightarrow>
          if b1 = CHR '':'' \<and> is_ascii_alphabetic b0 then
            if plain_extban b0 then m else b0 # CHR '':'' # normalize_mask rest
          else normalize_mask m
      | _ \<Rightarrow> normalize_mask m)"

text \<open>The name validators.  A byte of a multi-byte character is above 127, so testing every byte
  against these ASCII sets is testing every \<open>char\<close>.\<close>

definition valid_chan :: "string \<Rightarrow> nat \<Rightarrow> bool" where
  "valid_chan name maxlen \<longleftrightarrow>
     starts_with ''#'' name \<and> length name > 1 \<and> length name \<le> maxlen
     \<and> \<not> list_ex (\<lambda>c. c = CHR '' '' \<or> c = CHR '','' \<or> byte_of c < 32) name"

definition valid_host :: "string \<Rightarrow> bool" where
  "valid_host h \<longleftrightarrow> h \<noteq> [] \<and> length h \<le> 64
     \<and> list_all (\<lambda>c. is_ascii_alphanumeric c \<or> c \<in> set ''.-_/'') h"

definition valid_ident :: "string \<Rightarrow> bool" where
  "valid_ident i \<longleftrightarrow> i \<noteq> [] \<and> length i \<le> 20
     \<and> list_all (\<lambda>c. is_ascii_alphanumeric c \<or> c \<in> set ''.-_'') i"

definition nick_special :: "char \<Rightarrow> bool" where
  "nick_special c \<longleftrightarrow> c \<in> set [CHR ''['', CHR '']'', CHR 0x5C, CHR 0x60, CHR ''_'', CHR ''^'',
     CHR ''{'', CHR ''}'', CHR ''|'']"

definition valid_nick :: "string \<Rightarrow> nat \<Rightarrow> bool" where
  "valid_nick n maxlen =
     (case n of
        [] \<Rightarrow> False
      | c # _ \<Rightarrow>
          if is_ascii_alphabetic c \<or> nick_special c then
            length n \<le> maxlen
            \<and> list_all (\<lambda>c. is_ascii_alphanumeric c \<or> nick_special c \<or> c = CHR ''-'') n
          else False)"

definition ident_of :: "string \<Rightarrow> string" where
  "ident_of user =
     (let s = take 10 (filter (\<lambda>c. is_ascii_alphanumeric c \<or> c = CHR ''-'' \<or> c = CHR ''_'' \<or> c = CHR ''.'') user)
      in if s = [] then ''user'' else s)"

section \<open>What the matcher and the mask helpers guarantee\<close>

text \<open>C17: On a text with no asterisk in it, the byte matcher accepts exactly the texts its pattern
  stands for: \<open>*\<close> any run, \<open>?\<close> one byte, any other byte itself up to ASCII case.\<close>

theorem glob_bytes_spec:
  assumes "CHR ''*'' \<notin> set t"
  shows "glob_bytes p t \<longleftrightarrow> glob_spec byte_eq (CHR ''?'') (CHR ''*'') p t"
  unfolding glob_bytes_def by (rule byte_glob.glob_correct [OF assms])

theorem glob_bytes_spec_witness:
  "glob_bytes ''*!*@*.Example.?et'' ''bob!~b@irc.example.net''"
proof -
  have "glob_spec byte_eq (CHR ''?'') (CHR ''*'') ''*!*@*.Example.?et'' ''bob!~b@irc.example.net''
      = glob_bytes ''*!*@*.Example.?et'' ''bob!~b@irc.example.net''"
    by (rule glob_bytes_spec [symmetric]) code_simp
  moreover have "glob_bytes ''*!*@*.Example.?et'' ''bob!~b@irc.example.net''" by code_simp
  ultimately show ?thesis by simp
qed

text \<open>C23: The comment above \<open>glob_match\<close> holds: on ASCII input the byte path answers as the path over
  lowercased characters would, for every \<open>to_lowercase\<close> that folds ASCII strings bytewise.\<close>

theorem glob_paths_agree:
  assumes "is_ascii pat" and "is_ascii s"
    and lower: "\<And>x. is_ascii x \<Longrightarrow> lower x = to_ascii_lowercase x"
  shows "glob_match lower pat s = glob_chars (utf8_chars (lower pat)) (utf8_chars (lower s))"
proof -
  let ?f = "\<lambda>c. [ascii_low c]"
  have chars: "utf8_chars (lower x) = map ?f x" if "is_ascii x" for x
    using that by (simp add: lower utf8_chars_ascii) (simp add: to_ascii_lowercase_def)
  have wild_letters: "\<not> is_ascii_alphabetic (CHR ''?'')" "\<not> is_ascii_alphabetic (CHR ''*'')"
    by code_simp+
  have "glob_loop (=) ''?'' ''*'' (map ?f pat) (map ?f s) 0 0 None 0
      = glob_loop byte_eq (CHR ''?'') (CHR ''*'') pat s 0 0 None 0"
    by (rule glob_loop_map) (simp_all add: byte_eq_def ascii_low_eq_nonletter wild_letters)
  moreover have "glob_finish ''*'' (map ?f pat) r = glob_finish (CHR ''*'') pat r" for r
    by (rule glob_finish_map) (simp add: ascii_low_eq_nonletter wild_letters)
  ultimately show ?thesis
    using assms(1,2) by (simp add: glob_match_def glob_bytes_def glob_chars_def chars)
qed

theorem glob_paths_agree_witness:
  "glob_match to_ascii_lowercase ''*@Host'' ''a@hOST''
     = glob_chars (utf8_chars (to_ascii_lowercase ''*@Host'')) (utf8_chars (to_ascii_lowercase ''a@hOST''))"
  by (rule glob_paths_agree) (code_simp, code_simp, rule refl)

text \<open>C24: The restriction of C3 is needed.  The loop compares symbols before it looks for a star, so
  a star of the pattern that meets an asterisk of the text is used up as a literal: the mask \<open>*\<close>,
  which should match everything, refuses every longer text that begins with an asterisk.\<close>

theorem glob_star_text_refused:
  assumes "t \<noteq> []"
  shows "\<not> glob_bytes ''*'' (CHR ''*'' # t) \<and> glob_spec byte_eq (CHR ''?'') (CHR ''*'') ''*'' (CHR ''*'' # t)"
proof -
  have "glob_loop byte_eq (CHR ''?'') (CHR ''*'') ''*'' (CHR ''*'' # t) 0 0 None 0
      = glob_loop byte_eq (CHR ''?'') (CHR ''*'') ''*'' (CHR ''*'' # t) 1 1 None 0"
    by (subst glob_loop.simps) (simp add: byte_eq_def)
  also have "\<dots> = None" using assms by (subst glob_loop.simps) simp
  finally have "\<not> glob_bytes ''*'' (CHR ''*'' # t)" by (simp add: glob_bytes_def glob_finish_def)
  moreover have "glob_spec byte_eq (CHR ''?'') (CHR ''*'') ''*'' (CHR ''*'' # t)"
    by (auto intro!: exI [of _ "Suc (length t)"])
  ultimately show ?thesis by blast
qed

theorem glob_star_text_refused_witness:
  "\<not> glob_bytes ''*'' ''*spam'' \<and> glob_spec byte_eq (CHR ''?'') (CHR ''*'') ''*'' ''*spam''"
  using glob_star_text_refused [of "''spam''"] by simp

lemma normalize_mask_complete:
  "CHR ''!'' \<in> set (normalize_mask m) \<and> CHR ''@'' \<in> set (normalize_mask m)"
  by (auto simp: normalize_mask_def split: bool.splits)

lemma normalize_mask_fixed:
  "CHR ''!'' \<in> set m \<Longrightarrow> CHR ''@'' \<in> set m \<Longrightarrow> normalize_mask m = m"
  by (simp add: normalize_mask_def)

lemma normalize_mask_idem: "normalize_mask (normalize_mask m) = normalize_mask m"
  using normalize_mask_complete normalize_mask_fixed by blast

text \<open>A hostmask never turns into an extban by being filled out.\<close>

lemma normalize_mask_second:
  assumes "normalize_mask m = b0 # b1 # r" and "b1 = CHR '':''"
  shows "\<exists>r'. m = b0 # b1 # r'"
  using assms by (cases m rule: remdups_adj.cases) (auto simp: normalize_mask_def split: bool.splits if_splits)

text \<open>C25: Setting a ban twice stores the same mask: \<open>normalize_ban_mask\<close> leaves a mask it has
  produced alone, extban or not.\<close>

theorem normalize_ban_mask_idem:
  "normalize_ban_mask (normalize_ban_mask m) = normalize_ban_mask m"
proof (cases "\<exists>b0 rest. m = b0 # CHR '':'' # rest \<and> is_ascii_alphabetic b0")
  case True
  then show ?thesis by (auto simp: normalize_ban_mask_def normalize_mask_idem)
next
  case False
  then have "normalize_ban_mask m = normalize_mask m"
    by (auto simp: normalize_ban_mask_def split: list.splits)
  moreover have "normalize_ban_mask (normalize_mask m) = normalize_mask (normalize_mask m)"
    using False normalize_mask_second [of m]
    by (fastforce simp: normalize_ban_mask_def split: list.splits)
  ultimately show ?thesis by (simp add: normalize_mask_idem)
qed

text \<open>A \<open>nick!user@host\<close> of validated parts has no asterisk, so C3 covers every ban check on it.\<close>

lemma hostmask_no_star:
  assumes "valid_nick n k" and "valid_ident i" and "valid_host h"
  shows "CHR ''*'' \<notin> set (n @ ''!'' @ i @ ''@'' @ h)"
proof -
  have "\<not> (is_ascii_alphanumeric (CHR ''*'') \<or> nick_special (CHR ''*'') \<or> CHR ''*'' \<in> set ''.-_/'')"
    by code_simp
  moreover have "list_all (\<lambda>c. is_ascii_alphanumeric c \<or> nick_special c \<or> c = CHR ''-'') n"
    using assms(1) by (auto simp: valid_nick_def split: list.splits if_splits)
  ultimately show ?thesis
    using assms(2,3) by (auto simp: valid_ident_def valid_host_def list_all_iff)
qed

lemma ident_of_valid: "valid_ident (ident_of u) \<and> length (ident_of u) \<le> 10"
proof -
  let ?ok = "\<lambda>c. is_ascii_alphanumeric c \<or> c = CHR ''-'' \<or> c = CHR ''_'' \<or> c = CHR ''.''"
  define s where "s = take 10 (filter ?ok u)"
  have "ident_of u = (if s = [] then ''user'' else s)" by (simp add: ident_of_def s_def Let_def)
  moreover have "list_all (\<lambda>c. is_ascii_alphanumeric c \<or> c \<in> set ''.-_'') s" "length s \<le> 10"
    by (auto simp: s_def list_all_iff dest!: in_set_takeD)
  moreover have "valid_ident ''user''" by code_simp
  ultimately show ?thesis by (simp add: valid_ident_def)
qed

end
