(* ===== verification/State.thy ===== *)
theory State
  imports ChanModes I18n Civil Glob
begin

text \<open>
  The server state of \<open>src/server.rs\<close> and \<open>src/users.rs\<close>, and the output primitives every handler
  uses.  The state is one record.  A Rust hash map is an association list with distinct keys
  (iteration order is the list order), a hash set a list without repetitions.

  \<^item> What a client socket receives is appended to \<open>wire\<close> as a pair of connection and line, what a
    server link receives to \<open>link_wire\<close>.
  \<^item> \<open>clock\<close> is the second \<open>now()\<close> returns while one event is handled.
  \<^item> Capabilities are kept as the list of enabled tokens; the \<open>define_caps!\<close> macro of
    \<open>src/users.rs\<close> has one boolean per advertised token.
  \<^item> The record \<open>env\<close> collects the calls into modules that are not part of this development.  They
    are arguments of the model, so every theorem holds whatever they answer.
\<close>

section \<open>Users\<close>

record user_flags =
  oper :: bool
  invisible :: bool
  wallops :: bool
  cloak_on :: bool
  bot :: bool
  deaf :: bool
  hidechans :: bool
  hideoper :: bool
  logged_in :: bool
  reg_only_pm :: bool
  ssl_pm :: bool
  noctcp :: bool
  snomask :: bool
  snomask_cats :: string
  callerid :: bool
  showwhois :: bool
  helpop :: bool
  deny_uncommon :: bool
  nick_locked :: bool
  servprotect :: bool
  away :: "string option"

definition default_flags :: user_flags where
  "default_flags = \<lparr>oper = False, invisible = False, wallops = False, cloak_on = False, bot = False,
     deaf = False, hidechans = False, hideoper = False, logged_in = False, reg_only_pm = False,
     ssl_pm = False, noctcp = False, snomask = False, snomask_cats = [], callerid = False,
     showwhois = False, helpop = False, deny_uncommon = False, nick_locked = False,
     servprotect = False, away = None\<rparr>"

definition umodes :: "user_flags \<Rightarrow> string" where
  "umodes f = ''+'' @ concat (map (\<lambda>(on, ch). if on then ch else [])
     [(invisible f, ''i''), (wallops f, ''w''), (oper f, ''o''), (cloak_on f, ''x''), (bot f, ''B''),
      (servprotect f, ''k''), (deaf f, ''D''), (hidechans f, ''I''), (hideoper f, ''H''),
      (logged_in f, ''r''), (reg_only_pm f, ''R''), (ssl_pm f, ''z''), (noctcp f, ''T''),
      (snomask f, ''s''), (callerid f, ''g''), (showwhois f, ''W''), (helpop f, ''h''),
      (deny_uncommon f, ''c'')])"

definition supported_caps :: "string list" where
  "supported_caps =
     [''sasl'', ''server-time'', ''message-tags'', ''multi-prefix'', ''away-notify'', ''account-notify'',
      ''extended-join'', ''chghost'', ''userhost-in-names'', ''echo-message'', ''invite-notify'', ''setname'',
      ''extended-monitor'', ''account-tag'', ''standard-replies'', ''labeled-response'', ''batch'',
      ''draft/chathistory'', ''draft/event-playback'', ''draft/message-redaction'', ''draft/pre-away'',
      ''draft/metadata-2'', ''draft/multiline'', ''draft/account-registration'', ''draft/json-log'',
      ''draft/metrics'', ''echoircd/e2e'', ''draft/extended-isupport'', ''reverse.im/filehost'',
      ''draft/relaymsg'', ''draft/channel-rename'', ''draft/read-marker'', ''draft/webpush'',
      ''no-implicit-names'', ''cap-notify'']"

type_synonym caps = "string list"

definition caps_has :: "caps \<Rightarrow> string \<Rightarrow> bool" where
  "caps_has c name \<longleftrightarrow> name \<in> set supported_caps \<and> name \<in> set c"

definition caps_set :: "caps \<Rightarrow> string \<Rightarrow> bool \<Rightarrow> bool \<times> caps" where
  "caps_set c name on =
     (if name \<in> set supported_caps
      then (True, if on then List.insert name c else set_remove name c)
      else (False, c))"

definition caps_enabled :: "caps \<Rightarrow> string" where
  "caps_enabled c = join_with '' '' (filter (caps_has c) supported_caps)"

text \<open>The resolved grant of an oper type (\<open>src/modules/opertypes.rs\<close>).\<close>

datatype mode_allow = AllowAll | AllowOnly "uchar list"

record oper_type =
  ot_title :: string
  ot_color :: "nat option"
  all_commands :: bool
  commands :: "string list"
  all_privs :: bool
  privs :: "string list"
  deny_commands :: "string list"
  deny_privs :: "string list"
  usermodes :: mode_allow
  chanmodes :: mode_allow

record user =
  uuid :: string
  nick :: string
  ident :: string
  realname :: string
  host :: string
  cloak :: string
  vhost :: "string option"
  secure :: bool
  certfp :: "string option"
  brand_server :: "string option"
  account :: "string option"
  signon :: nat
  nick_ts :: nat
  registered :: bool
  conn_class :: "string option"
  user_caps :: caps
  joined_chans :: "string list"
  invited :: "string list"
  accept :: "string list"
  watch :: "string list"
  monitor :: "string list"
  silence :: "string list"
  signore :: "string list"
  quitting :: "string option"
  ip :: string
  flags :: user_flags
  opertype :: "oper_type option"

definition host_display :: "user \<Rightarrow> string" where
  "host_display u =
     (case vhost u of
        Some v \<Rightarrow> v
      | None \<Rightarrow> if cloak_on (flags u) \<and> cloak u \<noteq> [] then cloak u else host u)"

definition user_prefix :: "user \<Rightarrow> string" where
  "user_prefix u = nick u @ ''!'' @ ident u @ ''@'' @ host_display u"

abbreviation has_cap :: "string \<Rightarrow> user \<Rightarrow> bool" where
  "has_cap c u \<equiv> caps_has (user_caps u) c"

record remote_user =
  ru_uuid :: string
  ru_nick :: string
  ru_ident :: string
  ru_host :: string
  ru_realname :: string
  ru_account :: "string option"
  ru_ip :: string
  ru_modes :: string
  ru_sid :: string
  ru_via :: uid
  ru_nick_ts :: nat
  ru_away :: "string option"

record link =
  l_outbound :: bool
  l_registered :: bool
  l_sent_server :: bool
  l_sid :: "string option"
  l_name :: "string option"
  l_bursting :: bool
  l_last_seen :: nat

record remote_server =
  rs_sid :: string
  rs_name :: string
  rs_desc :: string
  rs_via :: uid
  rs_is_service :: bool
  rs_silent :: bool

definition remote_prefix :: "remote_user \<Rightarrow> string" where
  "remote_prefix ru = ru_nick ru @ ''!'' @ ru_ident ru @ ''@'' @ ru_host ru"

section \<open>The server\<close>

datatype hook = HConnect uid | HJoin uid string | HPart uid string string | HQuit uid string

record hist_msg =
  hm_ts :: nat
  hm_msgid :: string
  hm_prefix :: string
  hm_verb :: string
  hm_target :: string
  hm_text :: string
  hm_raw :: "string option"

datatype xkind =
    Kline | Gline | Zline | Eline | Shun | Qline | Cban | Svshold | Rline | Jupe | Aline | Galine

record xline =
  x_kind :: xkind
  x_mask :: string
  x_reason :: string
  x_setter :: string
  x_expires :: nat
  x_set_at :: nat

record whowas_entry =
  ww_nick :: string
  ww_ident :: string
  ww_host :: string
  ww_realname :: string
  ww_account :: "string option"
  ww_ts :: nat

record redis_cfg =
  rd_events :: "string list option"
  rd_channel :: string

record sql_request =
  rq_id :: nat
  rq_sql :: string
  rq_params :: "string option list"
  rq_coalesce :: "string option"
  rq_batch :: "(string \<times> string option list) list"

text \<open>The \<open>SqlState\<close> extension is \<open>sql_on\<close>, the queue bound of its primary provider \<open>sql_primary\<close> and
  the requests no worker has taken yet \<open>sql_queue\<close>.  \<open>disk_pending\<close> is the map of \<open>disk_write\<close> from a
  path to the contents its writer thread has still to put there.\<close>

record server =
  srv_name :: string
  network :: string
  motd :: "string list"
  max_local :: nat
  max_global :: nat
  sid :: string
  uuid_counter :: nat
  start_time :: nat
  users :: "(uid \<times> user) list"
  nick_index :: "(string \<times> uid) list"
  channels :: "(string \<times> channel) list"
  events :: "hook list"
  catalog_of :: catalog
  links :: "(uid \<times> link) list"
  servers :: "(string \<times> remote_server) list"
  sasl_server :: string
  msgid_counter :: nat
  uuid_local :: "(string \<times> uid) list"
  remote_users :: "(string \<times> remote_user) list"
  remote_nick :: "(string \<times> string) list"
  xlines :: "xline list"
  mode_sudo :: bool
  in_redirect :: bool
  redir_depth :: nat
  raw_config :: "(string \<times> string list) list"
  accepted_nicks :: "(string \<times> nat) list"
  label_capture :: "(uid \<times> string list) option"
  history_store :: "(string \<times> hist_msg list) list"
  meta_store :: "(string \<times> (string \<times> string) list) list"
  prefix_conf :: prefix_cfg
  watch_by :: "(string \<times> uid list) list"
  monitor_by :: "(string \<times> uid list) list"
  whowas :: "whowas_entry list"
  unreg_count :: nat
  unreg_flood :: bool
  per_ip :: "(string \<times> nat) list"
  per_class :: "(string \<times> nat) list"
  per_ip_class :: "((string \<times> string) \<times> nat) list"
  redis_state :: "redis_cfg option"
  redis_out :: "(string \<times> string) list"
  conf_path :: string
  sql_on :: bool
  sql_primary :: "nat option"
  sql_queue :: "sql_request list"
  disk_pending :: "(string \<times> string) list"
  log_seq :: nat
  log_ring :: "(nat \<times> nat \<times> string) list"
  clock :: nat
  wire :: "(uid \<times> string) list"
  link_wire :: "(uid \<times> string) list"

record env =
  str_lower :: "string \<Rightarrow> string"
  in_group :: "server \<Rightarrow> uid \<Rightarrow> string \<Rightarrow> bool"
  score_of :: "server \<Rightarrow> uid \<Rightarrow> nat"
  geo_iso :: "server \<Rightarrow> uid \<Rightarrow> string option"
  asn_of :: "server \<Rightarrow> uid \<Rightarrow> nat option"
  max_chans :: "server \<Rightarrow> uid \<Rightarrow> nat option"
  json_tag :: "server \<Rightarrow> string \<Rightarrow> string"

text \<open>The state \<open>Server::new\<close> builds: everything is empty but what the configuration gives.\<close>

definition new_server ::
  "string \<Rightarrow> string \<Rightarrow> string \<Rightarrow> string \<Rightarrow> string list \<Rightarrow> (string \<times> string list) list \<Rightarrow> catalog \<Rightarrow> prefix_cfg \<Rightarrow> string \<Rightarrow> nat \<Rightarrow> server" where
  "new_server name sid' net sasl motd' raw cat pfx path now =
     \<lparr>srv_name = name, network = net, motd = motd', max_local = 0, max_global = 0, sid = sid',
      uuid_counter = 0, start_time = now, users = [], nick_index = [], channels = [], events = [],
      catalog_of = cat, links = [], servers = [], sasl_server = sasl, msgid_counter = 0, uuid_local = [], remote_users = [],
      remote_nick = [], xlines = [], mode_sudo = False, in_redirect = False, redir_depth = 0,
      raw_config = raw, accepted_nicks = [], label_capture = None, history_store = [],
      meta_store = [], prefix_conf = pfx, watch_by = [], monitor_by = [], whowas = [],
      unreg_count = 0, unreg_flood = False, per_ip = [], per_class = [], per_ip_class = [],
      redis_state = None, redis_out = [], conf_path = path, sql_on = False, sql_primary = None,
      sql_queue = [], disk_pending = [], log_seq = 0, log_ring = [], clock = now, wire = [], link_wire = []\<rparr>"

text \<open>The user record \<open>add_conn\<close> files for a fresh connection.\<close>

definition new_user :: "string \<Rightarrow> string \<Rightarrow> bool \<Rightarrow> string option \<Rightarrow> string option \<Rightarrow> nat \<Rightarrow> user" where
  "new_user uu addr sec fp brand now =
     \<lparr>uuid = uu, nick = [], ident = [], realname = [], host = addr, cloak = [], vhost = None,
      secure = sec, certfp = fp, brand_server = brand, account = None, signon = now, nick_ts = now,
      registered = False, conn_class = None, user_caps = [], joined_chans = [], invited = [],
      accept = [], watch = [], monitor = [], silence = [], signore = [], quitting = None,
      ip = addr, flags = default_flags, opertype = None\<rparr>"

section \<open>Configuration\<close>

definition conf_all :: "server \<Rightarrow> string \<Rightarrow> string list" where
  "conf_all s k = (case map_of (raw_config s) k of Some v \<Rightarrow> v | None \<Rightarrow> [])"

definition conf :: "server \<Rightarrow> string \<Rightarrow> string option" where
  "conf s k = (case map_of (raw_config s) k of
                 Some v \<Rightarrow> if v = [] then None else Some (last v)
               | None \<Rightarrow> None)"

definition conf_bool :: "server \<Rightarrow> string \<Rightarrow> bool \<Rightarrow> bool" where
  "conf_bool s k d = (case conf s k of Some v \<Rightarrow> yesish v | None \<Rightarrow> d)"

definition conf_num :: "server \<Rightarrow> string \<Rightarrow> nat \<Rightarrow> nat" where
  "conf_num s k d = (case conf s k of
                       Some v \<Rightarrow> (case parse_uint 64 v of Some n \<Rightarrow> n | None \<Rightarrow> d)
                     | None \<Rightarrow> d)"

section \<open>Output\<close>

definition emit_to :: "uid \<Rightarrow> string \<Rightarrow> server \<Rightarrow> server" where
  "emit_to uid line s =
     (case label_capture s of
        Some (cuid, buf) \<Rightarrow>
          if cuid = uid then s\<lparr>label_capture := Some (cuid, buf @ [line])\<rparr>
          else if map_of (users s) uid \<noteq> None then s\<lparr>wire := wire s @ [(uid, line)]\<rparr> else s
      | None \<Rightarrow> if map_of (users s) uid \<noteq> None then s\<lparr>wire := wire s @ [(uid, line)]\<rparr> else s)"

definition time_tagged :: "server \<Rightarrow> string \<Rightarrow> string" where
  "time_tagged s line = ''@time='' @ iso_time (clock s) @ '' '' @ line"

definition send :: "uid \<Rightarrow> string \<Rightarrow> server \<Rightarrow> server" where
  "send uid line s =
     (case map_of (users s) uid of
        Some u \<Rightarrow>
          emit_to uid (if has_cap ''server-time'' u \<and> starts_with '':'' line then time_tagged s line else line) s
      | None \<Rightarrow> s)"

definition numeric :: "uid \<Rightarrow> nat \<Rightarrow> string \<Rightarrow> server \<Rightarrow> server" where
  "numeric uid code rest s =
     (let target = (case map_of (users s) uid of
                      Some u \<Rightarrow> if nick u = [] then ''*'' else nick u
                    | None \<Rightarrow> ''*'');
          srv = (case map_of (users s) uid of
                   Some u \<Rightarrow> (case brand_server u of Some b \<Rightarrow> b | None \<Rightarrow> srv_name s)
                 | None \<Rightarrow> srv_name s)
      in send uid ('':'' @ srv @ '' '' @ show_pad 3 code @ '' '' @ target @ '' ''
                   @ tr_numeric (catalog_of s) rest) s)"

definition to_channel :: "string \<Rightarrow> string \<Rightarrow> uid option \<Rightarrow> server \<Rightarrow> server" where
  "to_channel key line except s =
     (case map_of (channels s) key of
        None \<Rightarrow> s
      | Some ch \<Rightarrow>
          fold (\<lambda>(uid, _) s'.
                  if Some uid = except then s'
                  else
                    let want_time = starts_with '':'' line
                          \<and> (case map_of (users s) uid of Some u \<Rightarrow> has_cap ''server-time'' u | None \<Rightarrow> False)
                    in emit_to uid (if want_time then time_tagged s line else line) s')
            (members ch) s)"

definition log_push :: "string \<Rightarrow> server \<Rightarrow> server" where
  "log_push msg s =
     (let lid = log_seq s + 1; r = log_ring s @ [(lid, clock s, msg)]
      in s\<lparr>log_seq := lid, log_ring := drop (length r - 1000) r\<rparr>)"

definition deliver_server_notice :: "uid \<Rightarrow> string \<Rightarrow> string \<Rightarrow> server \<Rightarrow> server" where
  "deliver_server_notice uid msg jval s =
     (case map_of (users s) uid of
        None \<Rightarrow> s
      | Some u \<Rightarrow>
          let tags = (if has_cap ''server-time'' u then [''time='' @ iso_time (clock s)] else [])
                     @ (if has_cap ''draft/json-log'' u \<and> jval \<noteq> [] then [''draft/json-log='' @ jval] else []);
              base = '':'' @ srv_name s @ '' NOTICE '' @ nick u @ '' :*** '' @ tr (catalog_of s) msg
          in emit_to uid (if tags = [] then base else ''@'' @ join_with '';'' tags @ '' '' @ base) s)"

text \<open>\<open>str::contains\<close> of one character.\<close>

definition str_contains :: "string \<Rightarrow> uchar \<Rightarrow> bool" where
  "str_contains s c \<longleftrightarrow> c \<in> set (utf8_chars s)"

definition chanlog_tee :: "uchar \<Rightarrow> string \<Rightarrow> server \<Rightarrow> server" where
  "chanlog_tee cat msg s =
     fold (\<lambda>spec s'.
             case split_whitespace spec of
               [] \<Rightarrow> s'
             | chan # rest \<Rightarrow>
                 if (case rest of masks # _ \<Rightarrow> \<not> str_contains masks cat | [] \<Rightarrow> False) then s'
                 else
                   let key = to_ascii_lowercase chan in
                   if map_of (channels s) key = None then s'
                   else to_channel key ('':'' @ srv_name s @ '' PRIVMSG '' @ chan @ '' :'' @ msg) None s')
       (conf_all s ''chanlog'') s"

text \<open>The two other tees of \<open>snotice_c\<close> write to syslog and to a log file; they leave no trace here.\<close>

definition snotice_c :: "env \<Rightarrow> uchar \<Rightarrow> string \<Rightarrow> server \<Rightarrow> server" where
  "snotice_c E cat msg s =
     (let s1 = log_push msg s;
          opers = map fst (filter (\<lambda>(_, u). oper (flags u) \<and> str_contains (snomask_cats (flags u)) cat) (users s1));
          wanted = list_ex (\<lambda>o'. case map_of (users s1) o' of Some u \<Rightarrow> has_cap ''draft/json-log'' u | None \<Rightarrow> False) opers;
          jval = (if wanted then json_tag E s1 msg else []);
          s2 = fold (\<lambda>o'. deliver_server_notice o' msg jval) opers s1
      in chanlog_tee cat msg s2)"

section \<open>Lookups\<close>

definition find_nick :: "server \<Rightarrow> string \<Rightarrow> uid option" where
  "find_nick s n = map_of (nick_index s) (to_ascii_lowercase n)"

definition is_oper :: "server \<Rightarrow> uid \<Rightarrow> bool" where
  "is_oper s uid = (case map_of (users s) uid of Some u \<Rightarrow> oper (flags u) | None \<Rightarrow> False)"

definition find_remote :: "server \<Rightarrow> string \<Rightarrow> (string \<times> uid) option" where
  "find_remote s n =
     (case map_of (remote_nick s) (to_ascii_lowercase n) of
        None \<Rightarrow> None
      | Some uu \<Rightarrow> map_option (\<lambda>ru. (uu, ru_via ru)) (map_of (remote_users s) uu))"

definition user_has_priv :: "user \<Rightarrow> string \<Rightarrow> bool" where
  "user_has_priv u name =
     (if \<not> oper (flags u) then False
      else case opertype u of
             None \<Rightarrow> True
           | Some t \<Rightarrow> (all_privs t \<or> name \<in> set (privs t)) \<and> name \<notin> set (deny_privs t))"

definition has_priv :: "server \<Rightarrow> uid \<Rightarrow> string \<Rightarrow> bool" where
  "has_priv s uid name = (case map_of (users s) uid of Some u \<Rightarrow> user_has_priv u name | None \<Rightarrow> False)"

section \<open>Server links\<close>

definition link_out :: "uid \<Rightarrow> string \<Rightarrow> server \<Rightarrow> server" where
  "link_out uid line s = (if map_of (links s) uid \<noteq> None then s\<lparr>link_wire := link_wire s @ [(uid, line)]\<rparr> else s)"

definition propagate :: "string \<Rightarrow> uid option \<Rightarrow> server \<Rightarrow> server" where
  "propagate line except s =
     fold (\<lambda>u. link_out u line) (map fst (filter (\<lambda>(u, l). l_registered l \<and> Some u \<noteq> except) (links s))) s"

definition nick_to_uuid :: "server \<Rightarrow> string \<Rightarrow> string" where
  "nick_to_uuid s tok =
     (case find_nick s tok of
        Some l \<Rightarrow> (case map_of (users s) l of
                      Some u \<Rightarrow> uuid u
                    | None \<Rightarrow> (case find_remote s tok of Some (uu, _) \<Rightarrow> uu | None \<Rightarrow> tok))
      | None \<Rightarrow> (case find_remote s tok of Some (uu, _) \<Rightarrow> uu | None \<Rightarrow> tok))"

section \<open>Output leaves the rest of the state alone\<close>

text \<open>What is left of a state when the output buffers are set aside.\<close>

definition core :: "server \<Rightarrow> server" where
  "core s = s\<lparr>wire := [], link_wire := [], label_capture := None, log_seq := 0, log_ring := [], redis_out := [],
     sql_queue := [], disk_pending := []\<rparr>"

lemma core_eqD:
  assumes "core a = core b"
  shows
  "srv_name a = srv_name b"
  "network a = network b"
  "motd a = motd b"
  "max_local a = max_local b"
  "max_global a = max_global b"
  "uuid_counter a = uuid_counter b"
  "sid a = sid b"
  "start_time a = start_time b"
  "users a = users b"
  "nick_index a = nick_index b"
  "channels a = channels b"
  "events a = events b"
  "catalog_of a = catalog_of b"
  "links a = links b"
  "sasl_server a = sasl_server b"
  "servers a = servers b"
  "msgid_counter a = msgid_counter b"
  "uuid_local a = uuid_local b"
  "remote_users a = remote_users b"
  "remote_nick a = remote_nick b"
  "xlines a = xlines b"
  "mode_sudo a = mode_sudo b"
  "in_redirect a = in_redirect b"
  "redir_depth a = redir_depth b"
  "raw_config a = raw_config b"
  "accepted_nicks a = accepted_nicks b"
  "history_store a = history_store b"
  "meta_store a = meta_store b"
  "prefix_conf a = prefix_conf b"
  "watch_by a = watch_by b"
  "monitor_by a = monitor_by b"
  "whowas a = whowas b"
  "unreg_count a = unreg_count b"
  "unreg_flood a = unreg_flood b"
  "per_ip a = per_ip b"
  "per_class a = per_class b"
  "per_ip_class a = per_ip_class b"
  "redis_state a = redis_state b"
  "conf_path a = conf_path b"
  "sql_on a = sql_on b"
  "sql_primary a = sql_primary b"
  "clock a = clock b"
  using assms by (cases a; cases b; simp add: core_def)+

text \<open>The contract of every output primitive: only the buffers change.  Handlers rely on nothing else
  of them.\<close>

locale output_op =
  fixes f :: "server \<Rightarrow> server"
  assumes core_frame [simp]: "core (f s) = core s"
begin

lemma frame [simp]:
  "srv_name (f s) = srv_name s"
  "network (f s) = network s"
  "motd (f s) = motd s"
  "max_local (f s) = max_local s"
  "max_global (f s) = max_global s"
  "uuid_counter (f s) = uuid_counter s"
  "sid (f s) = sid s"
  "start_time (f s) = start_time s"
  "users (f s) = users s"
  "nick_index (f s) = nick_index s"
  "channels (f s) = channels s"
  "events (f s) = events s"
  "catalog_of (f s) = catalog_of s"
  "links (f s) = links s"
  "sasl_server (f s) = sasl_server s"
  "servers (f s) = servers s"
  "msgid_counter (f s) = msgid_counter s"
  "uuid_local (f s) = uuid_local s"
  "remote_users (f s) = remote_users s"
  "remote_nick (f s) = remote_nick s"
  "xlines (f s) = xlines s"
  "mode_sudo (f s) = mode_sudo s"
  "in_redirect (f s) = in_redirect s"
  "redir_depth (f s) = redir_depth s"
  "raw_config (f s) = raw_config s"
  "accepted_nicks (f s) = accepted_nicks s"
  "history_store (f s) = history_store s"
  "meta_store (f s) = meta_store s"
  "prefix_conf (f s) = prefix_conf s"
  "watch_by (f s) = watch_by s"
  "monitor_by (f s) = monitor_by s"
  "whowas (f s) = whowas s"
  "unreg_count (f s) = unreg_count s"
  "unreg_flood (f s) = unreg_flood s"
  "per_ip (f s) = per_ip s"
  "per_class (f s) = per_class s"
  "per_ip_class (f s) = per_ip_class s"
  "redis_state (f s) = redis_state s"
  "conf_path (f s) = conf_path s"
  "sql_on (f s) = sql_on s"
  "sql_primary (f s) = sql_primary s"
  "clock (f s) = clock s"
  by (rule core_eqD [OF core_frame])+

end

lemma output_op_id: "output_op (\<lambda>s. s)"
  by unfold_locales simp

lemma output_op_comp: "output_op f \<Longrightarrow> output_op g \<Longrightarrow> output_op (\<lambda>s. f (g s))"
  by (simp add: output_op_def)

lemma output_op_fold: "(\<And>x. x \<in> set xs \<Longrightarrow> output_op (f x)) \<Longrightarrow> output_op (fold f xs)"
proof (induction xs)
  case (Cons x xs)
  then have "output_op (fold f xs)" "output_op (f x)" by auto
  then show ?case by (simp add: output_op_def)
qed (simp add: output_op_def)

lemma core_wire [simp]: "core (s\<lparr>wire := w\<rparr>) = core s"
  "core (s\<lparr>link_wire := w\<rparr>) = core s" "core (s\<lparr>label_capture := c\<rparr>) = core s"
  "core (s\<lparr>log_ring := r\<rparr>) = core s" "core (s\<lparr>redis_out := o'\<rparr>) = core s"
  "core (s\<lparr>log_seq := n\<rparr>) = core s" "core (s\<lparr>sql_queue := q\<rparr>) = core s"
  "core (s\<lparr>disk_pending := d\<rparr>) = core s"
  by (simp_all add: core_def)

interpretation emit_to: output_op "emit_to uid line" for uid line
  by unfold_locales (simp add: emit_to_def split: option.split prod.split)

interpretation send: output_op "send uid line" for uid line
  by unfold_locales (simp add: send_def split: option.split)

interpretation numeric: output_op "numeric uid code rest" for uid code rest
  by unfold_locales (simp add: numeric_def Let_def)

lemma core_fold: "(\<And>x s. x \<in> set xs \<Longrightarrow> core (f x s) = core s) \<Longrightarrow> core (fold f xs s) = core s"
  by (induction xs arbitrary: s) auto

interpretation to_channel: output_op "to_channel key line ex" for key line ex
  by unfold_locales (auto simp: to_channel_def Let_def intro!: core_fold split: option.split)

interpretation log_push: output_op "log_push msg" for msg
  by unfold_locales (simp add: log_push_def Let_def)

interpretation deliver: output_op "deliver_server_notice uid msg jval" for uid msg jval
  by unfold_locales (simp add: deliver_server_notice_def Let_def split: option.split)

interpretation chanlog: output_op "chanlog_tee cat msg" for cat msg
  by unfold_locales (auto simp: chanlog_tee_def Let_def intro!: core_fold split: list.split)

interpretation snotice_c: output_op "snotice_c E cat msg" for E cat msg
  by unfold_locales (simp add: snotice_c_def Let_def core_fold)

interpretation link_out: output_op "link_out uid line" for uid line
  by unfold_locales (simp add: link_out_def)

interpretation propagate: output_op "propagate line ex" for line ex
  by unfold_locales (simp add: propagate_def core_fold)

section \<open>A sample state\<close>

text \<open>Two registered users, the first an operator of \<open>#a\<close>, the second a plain member.  The witnesses
  of the theorems apply them here.\<close>

definition sample_user :: "string \<Rightarrow> string \<Rightarrow> string list \<Rightarrow> user" where
  "sample_user uu n chans =
     (new_user uu ''10.0.0.1'' False None None 100)\<lparr>nick := n, ident := ''id'', realname := ''Real'', registered := True,
        joined_chans := chans\<rparr>"

definition sample_channel :: channel where
  "sample_channel = (new_channel 100 ''#a'')\<lparr>members := [(1, default_member\<lparr>pfx_bits := PFX_OP\<rparr>), (2, default_member)]\<rparr>"

definition sample_server :: server where
  "sample_server =
     (new_server ''irc.x'' ''00A'' ''Net'' [] [] [] passthrough default_prefix_cfg ''echoircd.conf'' 100)\<lparr>
        users := [(1, sample_user ''00AAAAAAA'' ''alice'' [''#a'']), (2, sample_user ''00AAAAAAB'' ''bob'' [''#a''])],
        nick_index := [(''alice'', 1), (''bob'', 2)],
        uuid_local := [(''00AAAAAAA'', 1), (''00AAAAAAB'', 2)],
        channels := [(''#a'', sample_channel)]\<rparr>"

definition sample_env :: env where
  "sample_env = \<lparr>str_lower = to_ascii_lowercase, in_group = (\<lambda>_ _ _. False), score_of = (\<lambda>_ _. 0),
     geo_iso = (\<lambda>_ _. None), asn_of = (\<lambda>_ _. None), max_chans = (\<lambda>_ _. None), json_tag = (\<lambda>_ _. [])\<rparr>"

lemmas sample_defs = sample_server_def new_server_def sample_user_def new_user_def sample_channel_def
  new_channel_def

end
