(* ===== verification/Bans.thy ===== *)
theory Bans
  imports State
begin

text \<open>
  Ranks and bans.  \<open>rank\<close>, \<open>is_op\<close>, \<open>is_member\<close>, \<open>chanop_exempt\<close>, \<open>ban_list_hit\<close> and
  \<open>extban_active\<close> of \<open>src/channels.rs\<close>, with the matching extbans of \<open>src/modules\<close> they call:
  \<open>accountban\<close>, \<open>realnameban\<close>, \<open>serverban\<close>, \<open>classban\<close>, \<open>channelban\<close>, \<open>extbanbanlist\<close>,
  \<open>banredirect\<close>, and the specification parsers of \<open>asn\<close>, \<open>geoip\<close> and \<open>reputation\<close>.
\<close>

section \<open>Ranks\<close>

definition chan_member :: "server \<Rightarrow> string \<Rightarrow> uid \<Rightarrow> member option" where
  "chan_member s key uid =
     (case map_of (channels s) key of Some c \<Rightarrow> map_of (members c) uid | None \<Rightarrow> None)"

definition rank :: "server \<Rightarrow> uid \<Rightarrow> string \<Rightarrow> nat" where
  "rank s uid key =
     (if mode_sudo s then RANK_OWNER
      else case chan_member s key uid of Some m \<Rightarrow> member_rank (prefix_conf s) m | None \<Rightarrow> 0)"

definition is_op :: "server \<Rightarrow> uid \<Rightarrow> string \<Rightarrow> bool" where
  "is_op s uid key \<longleftrightarrow> rank s uid key \<ge> RANK_OP"

definition is_member :: "server \<Rightarrow> uid \<Rightarrow> string \<Rightarrow> bool" where
  "is_member s uid key =
     (case map_of (channels s) key of Some c \<Rightarrow> map_of (members c) uid \<noteq> None | None \<Rightarrow> False)"

definition exempt_rank :: "uchar option \<Rightarrow> nat option" where
  "exempt_rank c =
     (if c = Some ''q'' then Some RANK_OWNER
      else if c = Some ''a'' then Some RANK_ADMIN
      else if c = Some ''o'' then Some RANK_OP
      else if c = Some ''h'' then Some RANK_HALFOP
      else if c = Some ''v'' then Some RANK_VOICE
      else None)"

definition chanop_exempt :: "server \<Rightarrow> uid \<Rightarrow> string \<Rightarrow> string \<Rightarrow> bool" where
  "chanop_exempt s uid key restriction =
     (case map_of (channels s) key of
        None \<Rightarrow> False
      | Some ch \<Rightarrow>
          let r = rank s uid key in
          list_ex (\<lambda>e.
            case split_once (CHR '':'') (mask e) of
              None \<Rightarrow> False
            | Some (rs, pfx) \<Rightarrow>
                if \<not> eq_ignore_ascii_case rs restriction then False
                else case exempt_rank (first_char pfx) of Some need \<Rightarrow> r \<ge> need | None \<Rightarrow> False)
            (exemptchanops ch))"

section \<open>Matching extbans\<close>

definition accountban_matches :: "env \<Rightarrow> server \<Rightarrow> uid \<Rightarrow> string \<Rightarrow> bool" where
  "accountban_matches E s uid m =
     (case map_of (users s) uid of
        Some u \<Rightarrow> (case account u of Some acct \<Rightarrow> glob_match (str_lower E) m acct | None \<Rightarrow> False)
      | None \<Rightarrow> False)"

definition realnameban_matches :: "env \<Rightarrow> server \<Rightarrow> uid \<Rightarrow> string \<Rightarrow> bool" where
  "realnameban_matches E s uid m =
     (case map_of (users s) uid of Some u \<Rightarrow> glob_match (str_lower E) m (realname u) | None \<Rightarrow> False)"

definition serverban_matches :: "env \<Rightarrow> server \<Rightarrow> uid \<Rightarrow> string \<Rightarrow> bool" where
  "serverban_matches E s uid m =
     (if map_of (users s) uid = None then False else glob_match (str_lower E) m (srv_name s))"

definition classban_matches :: "env \<Rightarrow> server \<Rightarrow> uid \<Rightarrow> string \<Rightarrow> bool" where
  "classban_matches E s uid spec =
     (case map_of (users s) uid of
        Some u \<Rightarrow>
          (case conn_class u of
             Some c \<Rightarrow> glob_match (str_lower E) spec (map (\<lambda>x. if x = CHR '' '' then CHR ''_'' else x) c)
           | None \<Rightarrow> False)
      | None \<Rightarrow> False)"

definition split_status :: "string \<Rightarrow> nat \<times> string" where
  "split_status m =
     (case first_char m of
        Some c \<Rightarrow>
          if c = ''~'' then (RANK_OWNER, drop 1 m)
          else if c = ''&'' then (RANK_ADMIN, drop 1 m)
          else if c = ''@'' then (RANK_OP, drop 1 m)
          else if c = ''%'' then (RANK_HALFOP, drop 1 m)
          else if c = ''+'' then (RANK_VOICE, drop 1 m)
          else (0, m)
      | None \<Rightarrow> (0, m))"

definition channelban_matches :: "env \<Rightarrow> server \<Rightarrow> uid \<Rightarrow> string \<Rightarrow> bool" where
  "channelban_matches E s uid m =
     (case split_status m of (min_rank, g) \<Rightarrow>
        let changlob = to_ascii_lowercase g in
        case map_of (users s) uid of
          None \<Rightarrow> False
        | Some u \<Rightarrow>
            list_ex (\<lambda>key.
              if \<not> glob_match (str_lower E) changlob key then False
              else if min_rank = 0 then True
              else case chan_member s key uid of
                     Some mem \<Rightarrow> member_rank (prefix_conf s) mem \<ge> min_rank
                   | None \<Rightarrow> False)
              (joined_chans u))"

definition is_plain :: "string \<Rightarrow> bool" where
  "is_plain m = (case m of b0 # b1 # _ \<Rightarrow> \<not> (is_ascii_alphabetic b0 \<and> b1 = CHR '':'') | _ \<Rightarrow> True)"

definition extbanbanlist_matches :: "env \<Rightarrow> server \<Rightarrow> uid \<Rightarrow> string \<Rightarrow> bool" where
  "extbanbanlist_matches E s uid chan =
     (case map_of (users s) uid of
        None \<Rightarrow> False
      | Some u \<Rightarrow>
          (case map_of (channels s) (to_ascii_lowercase chan) of
             None \<Rightarrow> False
           | Some ch \<Rightarrow>
               let who = user_prefix u;
                   hit = (\<lambda>b. is_plain (mask b) \<and> glob_match (str_lower E) (mask b) who)
               in if list_ex hit (excepts ch) then False else list_ex hit (bans ch)))"

definition str_trim :: "string \<Rightarrow> string" where
  "str_trim s = concat (trim_ws (utf8_chars s))"

text \<open>\<open>asn::parse_list\<close> and the \<open>A:\<close> extban; \<open>asn_of\<close> is the lookup in the loaded database.\<close>

definition asn_token :: "string \<Rightarrow> nat option" where
  "asn_token t =
     parse_uint 32 (case strip_prefix ''AS'' t of
                      Some n \<Rightarrow> n
                    | None \<Rightarrow> (case strip_prefix ''as'' t of Some n \<Rightarrow> n | None \<Rightarrow> t))"

definition asn_parse_list :: "string \<Rightarrow> nat list" where
  "asn_parse_list v =
     List.map_filter asn_token
       (filter (\<lambda>t. t \<noteq> []) (map str_trim (concat (map (split_char (CHR '' '')) (split_char (CHR '','') v)))))"

definition asn_extban_match :: "env \<Rightarrow> server \<Rightarrow> uid \<Rightarrow> string \<Rightarrow> bool" where
  "asn_extban_match E s uid spec =
     (let l = asn_parse_list spec in
      l \<noteq> [] \<and> (case asn_of E s uid of Some a \<Rightarrow> a \<in> set l | None \<Rightarrow> False))"

definition geoban_match :: "env \<Rightarrow> server \<Rightarrow> uid \<Rightarrow> string \<Rightarrow> bool" where
  "geoban_match E s uid spec =
     (if map_of (users s) uid = None then False
      else case geo_iso E s uid of
             Some cc \<Rightarrow> list_ex (\<lambda>want. eq_ignore_ascii_case (str_trim want) cc) (split_char (CHR '','') spec)
           | None \<Rightarrow> False)"

definition parse_score_spec :: "string \<Rightarrow> (bool \<times> nat) option" where
  "parse_score_spec spec =
     (let (gt, num) = (case strip_prefix ''>'' spec of
                         Some n \<Rightarrow> (True, n)
                       | None \<Rightarrow> (False, case strip_prefix ''<'' spec of Some n \<Rightarrow> n | None \<Rightarrow> spec))
      in map_option (\<lambda>t. (gt, t)) (parse_uint 32 (str_trim num)))"

definition score_ban_match :: "env \<Rightarrow> server \<Rightarrow> uid \<Rightarrow> string \<Rightarrow> bool" where
  "score_ban_match E s uid spec =
     (case parse_score_spec spec of
        None \<Rightarrow> False
      | Some (gt, threshold) \<Rightarrow> if gt then score_of E s uid > threshold else score_of E s uid < threshold)"

section \<open>Ban lists\<close>

definition mask_part :: "string \<Rightarrow> string" where
  "mask_part m = hd (split_char (CHR ''$'') m)"

definition redirect_target :: "env \<Rightarrow> server \<Rightarrow> uid \<Rightarrow> string \<Rightarrow> string option" where
  "redirect_target E s uid key =
     (case map_of (channels s) key of
        None \<Rightarrow> None
      | Some ch \<Rightarrow>
          (case map_of (users s) uid of
             None \<Rightarrow> None
           | Some u \<Rightarrow>
               let who = user_prefix u in
               if list_ex (\<lambda>e. glob_match (str_lower E) (mask_part (mask e)) who) (excepts ch) then None
               else
                 (case List.map_filter
                    (\<lambda>b. case split_once (CHR ''$'') (mask b) of
                           None \<Rightarrow> None
                         | Some (m, redir) \<Rightarrow>
                             if starts_with ''#'' redir \<and> glob_match (str_lower E) m who then Some redir else None)
                    (bans ch) of
                    [] \<Rightarrow> None | t # _ \<Rightarrow> Some t)))"

definition ban_hit :: "env \<Rightarrow> server \<Rightarrow> uid \<Rightarrow> string \<Rightarrow> ban \<Rightarrow> bool" where
  "ban_hit E s uid who b =
     (case mask b of
        b0 # b1 # rest \<Rightarrow>
          if b1 = CHR '':'' then
            if b0 = CHR ''a'' then accountban_matches E s uid rest
            else if b0 = CHR ''g'' then in_group E s uid rest
            else if b0 = CHR ''y'' then score_ban_match E s uid rest
            else if b0 = CHR ''r'' then realnameban_matches E s uid rest
            else if b0 = CHR ''j'' then channelban_matches E s uid rest
            else if b0 = CHR ''s'' then serverban_matches E s uid rest
            else if b0 = CHR ''G'' then geoban_match E s uid rest
            else if b0 = CHR ''A'' then asn_extban_match E s uid rest
            else if b0 = CHR ''b'' then extbanbanlist_matches E s uid rest
            else if b0 = CHR ''C'' then classban_matches E s uid rest
            else False
          else glob_match (str_lower E) (mask_part (mask b)) who
      | _ \<Rightarrow> glob_match (str_lower E) (mask_part (mask b)) who)"

definition ban_list_hit :: "env \<Rightarrow> server \<Rightarrow> uid \<Rightarrow> ban list \<Rightarrow> bool" where
  "ban_list_hit E s uid list =
     (let who = (case map_of (users s) uid of Some u \<Rightarrow> user_prefix u | None \<Rightarrow> [])
      in list_ex (ban_hit E s uid who) list)"

definition extban_active :: "env \<Rightarrow> server \<Rightarrow> uid \<Rightarrow> string \<Rightarrow> uchar \<Rightarrow> bool" where
  "extban_active E s uid key kind =
     (case map_of (channels s) key of
        None \<Rightarrow> False
      | Some ch \<Rightarrow>
          (case map_of (users s) uid of
             None \<Rightarrow> False
           | Some u \<Rightarrow>
               let who = user_prefix u; pfx = kind @ '':'';
                   hit = (\<lambda>l. list_ex (\<lambda>b. glob_match (str_lower E) (drop 2 (mask b)) who)
                                (filter (\<lambda>b. starts_with pfx (mask b)) l))
               in hit (bans ch) \<and> \<not> hit (excepts ch)))"

section \<open>The AS-number extban\<close>

lemma trim_ws_id: "cs \<noteq> [] \<Longrightarrow> \<not> is_whitespace (hd cs) \<Longrightarrow> \<not> is_whitespace (last cs) \<Longrightarrow> trim_ws cs = cs"
proof -
  assume cs: "cs \<noteq> []" "\<not> is_whitespace (hd cs)" "\<not> is_whitespace (last cs)"
  then have "dropWhile is_whitespace cs = cs" by (cases cs) auto
  moreover have "dropWhile is_whitespace (rev cs) = rev cs" using cs by (cases cs rule: rev_cases) auto
  ultimately show ?thesis by (simp add: trim_ws_def)
qed

lemma str_trim_ascii:
  assumes "is_ascii s" and "s \<noteq> []" and "\<not> is_whitespace [hd s]" and "\<not> is_whitespace [last s]"
  shows "str_trim s = s"
proof -
  have "utf8_chars s = map (\<lambda>c. [c]) s" using assms(1) by (rule utf8_chars_ascii)
  moreover have "trim_ws (map (\<lambda>c. [c]) s) = map (\<lambda>c. [c]) s"
    using assms by (intro trim_ws_id) (auto simp: hd_map last_map)
  ultimately show ?thesis by (simp add: str_trim_def)
qed

lemma parse_uint_nondigit:
  assumes "c \<in> set s" and "\<not> is_ascii_digit c" and "c \<noteq> CHR ''+''"
  shows "parse_uint w s = None"
proof -
  have "parse_digits r = None" if "c \<in> set r" for r
    using that assms(2) by (auto simp: parse_digits_def list_all_iff)
  moreover have "c \<in> set r" if "strip_prefix ''+'' s = Some r" for r
    using that assms(1,3) by (auto simp: strip_prefix_Some_iff)
  ultimately show ?thesis using assms(1) by (auto simp: parse_uint_def split: option.split)
qed

lemma digit_facts:
  assumes "is_ascii_digit c"
  shows "byte_of c < 128" "\<not> is_whitespace [c]" "c \<noteq> CHR '',''" "c \<noteq> CHR '' ''" "c \<noteq> CHR ''A''" "c \<noteq> CHR ''a''"
    "c \<noteq> CHR ''!''" "c \<noteq> CHR ''@''"
  using assms by (auto simp: is_ascii_digit_def is_whitespace_def)

text \<open>One token that starts with a digit and holds neither separator nor blank.\<close>

lemma asn_parse_one:
  assumes "is_ascii s" and "s \<noteq> []" and "is_ascii_digit (hd s)" and "\<not> is_whitespace [last s]"
    and "CHR '','' \<notin> set s" and "CHR '' '' \<notin> set s"
  shows "asn_parse_list s = (case parse_uint 32 s of Some n \<Rightarrow> [n] | None \<Rightarrow> [])"
proof -
  have "str_trim s = s" using assms digit_facts(2) by (intro str_trim_ascii) auto
  moreover have "strip_prefix ''AS'' s = None" "strip_prefix ''as'' s = None"
    using assms(2,3) digit_facts(5,6) [OF assms(3)] by (cases s; auto)+
  ultimately show ?thesis
    using assms by (simp add: asn_parse_list_def asn_token_def split_char_fresh List.map_filter_simps split: option.split)
qed



end
