(* ===== verification/Links.thy ===== *)
theory Links
  imports Bans
begin

text \<open>
  What a channel operation tells the linked servers (\<open>src/link.rs\<close>, the \<open>propagate_*\<close> methods).
  Every method writes one line to each registered link, and nothing when there is no link or the
  acting user is not registered.
\<close>

definition propagate_from :: "uid \<Rightarrow> (user \<Rightarrow> string) \<Rightarrow> server \<Rightarrow> server" where
  "propagate_from uid line s =
     (if links s = [] then s
      else case map_of (users s) uid of
             Some u \<Rightarrow> if registered u then propagate (line u) None s else s
           | None \<Rightarrow> s)"

definition propagate_from_user :: "uid \<Rightarrow> string \<Rightarrow> server \<Rightarrow> server" where
  "propagate_from_user uid rest s = propagate_from uid (\<lambda>u. '':'' @ uuid u @ '' '' @ rest) s"

definition propagate_join :: "uid \<Rightarrow> string \<Rightarrow> bool \<Rightarrow> server \<Rightarrow> server" where
  "propagate_join uid chan is_new s =
     (if links s = [] then s
      else case (map_of (users s) uid, map_of (channels s) (to_ascii_lowercase chan)) of
             (Some u, Some ch) \<Rightarrow>
               if \<not> registered u then s
               else
                 let letters = (case map_of (members ch) uid of
                                  Some m \<Rightarrow> concat (mode_letters (prefix_conf s) m)
                                | None \<Rightarrow> [])
                 in if is_new then
                      propagate ('':'' @ sid s @ '' FJOIN '' @ chan_name ch @ '' '' @ show_nat (created ch) @ '' ''
                        @ render (modes ch) False @ '' :'' @ letters @ '','' @ uuid u) None s
                    else
                      propagate ('':'' @ uuid u @ '' IJOIN '' @ chan_name ch @ '' 1 '' @ show_nat (created ch)
                        @ (if letters = [] then [] else '' '' @ letters)) None s
           | _ \<Rightarrow> s)"

definition propagate_part :: "uid \<Rightarrow> string \<Rightarrow> string \<Rightarrow> server \<Rightarrow> server" where
  "propagate_part uid chan reason s =
     propagate_from uid (\<lambda>u. if reason = [] then '':'' @ uuid u @ '' PART '' @ chan
                              else '':'' @ uuid u @ '' PART '' @ chan @ '' :'' @ reason) s"

definition propagate_kick :: "uid \<Rightarrow> string \<Rightarrow> string \<Rightarrow> string \<Rightarrow> server \<Rightarrow> server" where
  "propagate_kick uid chan victim reason s =
     propagate_from uid
       (\<lambda>u. '':'' @ uuid u @ '' KICK '' @ chan @ '' '' @ nick_to_uuid s victim @ '' :'' @ reason) s"

definition propagate_topic :: "uid \<Rightarrow> string \<Rightarrow> string \<Rightarrow> server \<Rightarrow> server" where
  "propagate_topic uid chan text s =
     (if links s = [] then s
      else case (map_of (users s) uid, map_of (channels s) (to_ascii_lowercase chan)) of
             (Some u, Some c) \<Rightarrow>
               if \<not> registered u then s
               else
                 let ts = (case topic_of c of Some t \<Rightarrow> topic_ts t | None \<Rightarrow> clock s) in
                 propagate ('':'' @ uuid u @ '' FTOPIC '' @ chan_name c @ '' '' @ show_nat (created c) @ '' ''
                   @ show_nat ts @ '' '' @ user_prefix u @ '' :'' @ text) None s
           | _ \<Rightarrow> s)"

text \<open>The parameter list of an \<open>FMODE\<close>: nicknames of prefix modes become network ids.  \<open>ps\<close> is what
  is left of the displayed parameters.\<close>

definition status_letter :: "uchar \<Rightarrow> bool" where
  "status_letter c \<longleftrightarrow> c \<in> set [''y'', ''q'', ''a'', ''o'', ''h'', ''v'']"

definition param_letter :: "uchar \<Rightarrow> bool \<Rightarrow> bool" where
  "param_letter c adding \<longleftrightarrow> c \<in> set [''b'', ''e'', ''I'', ''k''] \<or> c = ''l'' \<and> adding"

fun fmode_params :: "server \<Rightarrow> bool \<Rightarrow> uchar list \<Rightarrow> string list \<Rightarrow> string list" where
  "fmode_params s adding [] ps = ps"
| "fmode_params s adding (c # cs) ps =
     (if c = ''+'' then fmode_params s True cs ps
      else if c = ''-'' then fmode_params s False cs ps
      else if status_letter c then
        (case ps of p # ps' \<Rightarrow> nick_to_uuid s p # fmode_params s adding cs ps' | [] \<Rightarrow> fmode_params s adding cs [])
      else if param_letter c adding then
        (case ps of p # ps' \<Rightarrow> p # fmode_params s adding cs ps' | [] \<Rightarrow> fmode_params s adding cs [])
      else fmode_params s adding cs ps)"

definition propagate_chan_mode :: "string \<Rightarrow> string \<Rightarrow> string \<Rightarrow> string list \<Rightarrow> server \<Rightarrow> server" where
  "propagate_chan_mode src chan modestring ps s =
     (if links s = [] then s
      else
        let ts = (case map_of (channels s) (to_ascii_lowercase chan) of Some c \<Rightarrow> created c | None \<Rightarrow> clock s);
            out = fmode_params s True (utf8_chars modestring) ps
        in propagate ('':'' @ src @ '' FMODE '' @ chan @ '' '' @ show_nat ts @ '' '' @ modestring
             @ (if out = [] then [] else '' '' @ join_with '' '' out)) None s)"

section \<open>Frames\<close>

interpretation propagate_from: output_op "propagate_from uid line" for uid line
  by unfold_locales (simp add: propagate_from_def split: option.split)

interpretation propagate_from_user: output_op "propagate_from_user uid rest" for uid rest
  by unfold_locales (simp add: propagate_from_user_def)

interpretation propagate_join: output_op "propagate_join uid chan is_new" for uid chan is_new
  by unfold_locales (simp add: propagate_join_def Let_def split: option.split)

interpretation propagate_part: output_op "propagate_part uid chan reason" for uid chan reason
  by unfold_locales (simp add: propagate_part_def)

interpretation propagate_kick: output_op "propagate_kick uid chan victim reason" for uid chan victim reason
  by unfold_locales (simp add: propagate_kick_def)

interpretation propagate_topic: output_op "propagate_topic uid chan t" for uid chan t
  by unfold_locales (simp add: propagate_topic_def Let_def split: option.split)

interpretation propagate_chan_mode: output_op "propagate_chan_mode src chan ms ps" for src chan ms ps
  by unfold_locales (simp add: propagate_chan_mode_def Let_def)

text \<open>The displayed parameters and the propagated ones correspond one to one: nothing is dropped.\<close>

lemma fmode_params_length: "length (fmode_params s adding cs ps) = length ps"
  by (induction s adding cs ps rule: fmode_params.induct) (auto split: list.splits)

end
