(* ===== verification/Channels.thy ===== *)
theory Channels
  imports Links
begin

text \<open>
  Channel membership: the methods of \<open>src/channels.rs\<close> that let users in and out, with the join
  interceptors \<open>denychans\<close>, \<open>restrictchans\<close> and \<open>channames\<close> of \<open>src/modules\<close>.

  \<open>join\<close> may call itself: a ban redirect (\<open>+b mask$#chan\<close>) or a full channel (\<open>+L\<close>) sends the user
  to another channel once, guarded by \<open>in_redirect\<close>; a forbidden name (\<open>badchan\<close>) sends the user on,
  guarded by a depth counter of at most 8.  The model runs on fuel; \<open>join_returns\<close> shows that ten
  steps are always enough.  A Rust panic is \<^const>\<open>None\<close>.
\<close>

section \<open>Numerics\<close>

text \<open>The numeric replies used below (\<open>src/numeric.rs\<close>).\<close>

definition ERR_BADCHANNAME :: nat where "ERR_BADCHANNAME = 479"
definition ERR_TOOMANYCHANNELS :: nat where "ERR_TOOMANYCHANNELS = 405"
definition ERR_BADCHANNEL :: nat where "ERR_BADCHANNEL = 926"
definition ERR_BADCHANNELKEY :: nat where "ERR_BADCHANNELKEY = 475"
definition ERR_LINKCHANNEL :: nat where "ERR_LINKCHANNEL = 470"
definition ERR_BANNEDFROMCHAN :: nat where "ERR_BANNEDFROMCHAN = 474"
definition ERR_INVITEONLYCHAN :: nat where "ERR_INVITEONLYCHAN = 473"
definition ERR_SECUREONLYCHAN :: nat where "ERR_SECUREONLYCHAN = 489"
definition ERR_E2EONLYCHAN :: nat where "ERR_E2EONLYCHAN = 927"
definition ERR_CANTJOINOPERSONLY :: nat where "ERR_CANTJOINOPERSONLY = 520"
definition ERR_NEEDREGGEDNICK :: nat where "ERR_NEEDREGGEDNICK = 477"
definition ERR_DELAYREJOIN :: nat where "ERR_DELAYREJOIN = 495"
definition ERR_CHANNELISFULL :: nat where "ERR_CHANNELISFULL = 471"
definition ERR_UNAVAILRESOURCE :: nat where "ERR_UNAVAILRESOURCE = 437"
definition RPL_TOPIC :: nat where "RPL_TOPIC = 332"
definition RPL_TOPICWHOTIME :: nat where "RPL_TOPICWHOTIME = 333"
definition RPL_ENDOFNAMES :: nat where "RPL_ENDOFNAMES = 366"
definition RPL_NAMREPLY :: nat where "RPL_NAMREPLY = 353"

section \<open>Updating one channel or one user\<close>

definition update_chan :: "string \<Rightarrow> (channel \<Rightarrow> channel) \<Rightarrow> server \<Rightarrow> server" where
  "update_chan key f s = s\<lparr>channels := map_key key f (channels s)\<rparr>"

definition update_user :: "uid \<Rightarrow> (user \<Rightarrow> user) \<Rightarrow> server \<Rightarrow> server" where
  "update_user uid f s = s\<lparr>users := map_key uid f (users s)\<rparr>"

definition update_member :: "string \<Rightarrow> uid \<Rightarrow> (member \<Rightarrow> member) \<Rightarrow> server \<Rightarrow> server" where
  "update_member key uid f s = update_chan key (\<lambda>c. c\<lparr>members := map_key uid f (members c)\<rparr>) s"

text \<open>\<open>self.channels.retain(|_, c| c.keep_alive())\<close>.\<close>

definition reap :: "server \<Rightarrow> server" where
  "reap s = s\<lparr>channels := retain_vals keep_alive (channels s)\<rparr>"

definition drop_membership :: "uid \<Rightarrow> string \<Rightarrow> server \<Rightarrow> server" where
  "drop_membership uid key s =
     reap (update_user uid (\<lambda>u. u\<lparr>joined_chans := set_remove key (joined_chans u)\<rparr>)
       (update_chan key (\<lambda>c. c\<lparr>members := AList.delete uid (members c)\<rparr>) s))"

definition is_hidden :: "server \<Rightarrow> uid \<Rightarrow> string \<Rightarrow> bool" where
  "is_hidden s uid key = (case chan_member s key uid of Some m \<Rightarrow> hidden m | None \<Rightarrow> False)"

section \<open>Broadcasts\<close>

definition to_channel_vis :: "string \<Rightarrow> string \<Rightarrow> uid \<Rightarrow> server \<Rightarrow> server" where
  "to_channel_vis key line actor s =
     (case map_of (channels s) key of
        None \<Rightarrow> s
      | Some ch \<Rightarrow>
          fold (\<lambda>(uid, m) s'.
                  if auditorium (modes ch) \<and> uid \<noteq> actor \<and> member_rank (prefix_conf s) m < RANK_OP then s'
                  else send uid line s')
            (members ch) s)"

definition join_line :: "user \<Rightarrow> string \<Rightarrow> string" where
  "join_line u name = '':'' @ user_prefix u @ '' JOIN '' @ name"

definition join_line_ext :: "user \<Rightarrow> string \<Rightarrow> string" where
  "join_line_ext u name =
     join_line u name @ '' '' @ (case account u of Some a \<Rightarrow> a | None \<Rightarrow> ''*'') @ '' :'' @ realname u"

text \<open>\<open>extended-join\<close> clients get the account and the real name too.\<close>

definition send_join :: "user \<Rightarrow> string \<Rightarrow> uid \<Rightarrow> server \<Rightarrow> server" where
  "send_join u name m s =
     send m (if (case map_of (users s) m of Some x \<Rightarrow> has_cap ''extended-join'' x | None \<Rightarrow> False)
             then join_line_ext u name else join_line u name) s"

definition reveal_member :: "uid \<Rightarrow> string \<Rightarrow> server \<Rightarrow> server" where
  "reveal_member uid key s =
     (if \<not> is_hidden s uid key then s
      else
        let s1 = update_member key uid (\<lambda>m. m\<lparr>hidden := False\<rparr>) s;
            name = (case map_of (channels s1) key of Some c \<Rightarrow> chan_name c | None \<Rightarrow> key);
            aud = (case map_of (channels s1) key of Some c \<Rightarrow> auditorium (modes c) | None \<Rightarrow> False)
        in case map_of (users s1) uid of
             None \<Rightarrow> s1
           | Some u \<Rightarrow>
               fold (\<lambda>m s'.
                       if m = uid then s'
                       else if aud \<and> rank s1 m key < RANK_OP then s'
                       else send_join u name m s')
                 (case map_of (channels s1) key of Some c \<Rightarrow> map fst (members c) | None \<Rightarrow> []) s1)"

section \<open>Leaving a channel\<close>

definition part_line :: "string \<Rightarrow> string \<Rightarrow> string \<Rightarrow> string" where
  "part_line who target reason =
     (if reason = [] then '':'' @ who @ '' PART '' @ target
      else '':'' @ who @ '' PART '' @ target @ '' :'' @ reason)"

definition force_part :: "uid \<Rightarrow> string \<Rightarrow> string \<Rightarrow> server \<Rightarrow> server option" where
  "force_part uid chan reason s =
     (let key = to_ascii_lowercase chan in
      if \<not> is_member s uid key then Some s
      else case map_of (users s) uid of
             None \<Rightarrow> None
           | Some u \<Rightarrow>
               let line = '':'' @ user_prefix u @ '' PART '' @ chan @ '' :'' @ reason;
                   s1 = (if is_hidden s uid key then send uid line s else to_channel key line None s)
               in Some (drop_membership uid key (propagate_part uid chan reason s1)))"

definition part :: "uid \<Rightarrow> string \<Rightarrow> string \<Rightarrow> server \<Rightarrow> bool \<times> server" where
  "part uid target reason s =
     (let key = to_ascii_lowercase target in
      case map_of (users s) uid of
        None \<Rightarrow> (False, s)
      | Some u \<Rightarrow>
          if key \<notin> set (joined_chans u) then (False, s)
          else
            let line = part_line (user_prefix u) target reason;
                s1 = (if is_hidden s uid key then send uid line s else to_channel_vis key line uid s);
                s2 = drop_membership uid key (propagate_part uid target reason s1)
            in (True, s2\<lparr>events := events s2 @ [HPart uid key reason]\<rparr>))"

definition flood_kick :: "uid \<Rightarrow> string \<Rightarrow> bool \<Rightarrow> server \<Rightarrow> server" where
  "flood_kick uid key ban s =
     (case map_of (users s) uid of
        None \<Rightarrow> s
      | Some u \<Rightarrow>
          let cname = (case map_of (channels s) key of Some c \<Rightarrow> chan_name c | None \<Rightarrow> key);
              bmask = ''*!*@'' @ host_display u;
              s1 = (if ban then
                      update_chan key (\<lambda>c.
                        if list_ex (\<lambda>b. mask b = bmask) (bans c) then c
                        else c\<lparr>bans := bans c @ [\<lparr>mask = bmask, setter = srv_name s, ban_ts = clock s, expires = None\<rparr>]\<rparr>) s
                    else s);
              s2 = to_channel key ('':'' @ srv_name s @ '' KICK '' @ cname @ '' '' @ nick u @ '' :Flood'') None s1;
              s3 = drop_membership uid key (propagate_kick uid cname (nick u) ''Flood'' s2)
          in s3\<lparr>events := events s3 @ [HPart uid key ''flood'']\<rparr>)"

section \<open>Flood protection\<close>

text \<open>\<open>retain(|&t| n.saturating_sub(t) < secs)\<close> then \<open>push(n)\<close>: the hits inside the window.\<close>

definition recent_hits :: "nat \<Rightarrow> nat \<Rightarrow> nat list \<Rightarrow> nat list" where
  "recent_hits n secs v = filter (\<lambda>t. n - t < secs) v @ [n]"

definition messageflood_hit :: "uid \<Rightarrow> string \<Rightarrow> server \<Rightarrow> bool option \<times> server" where
  "messageflood_hit uid key s =
     (case map_of (channels s) key of
        None \<Rightarrow> (None, s)
      | Some ch \<Rightarrow>
          (case flood (modes ch) of
             None \<Rightarrow> (None, s)
           | Some f \<Rightarrow>
               let old = (case map_of (msgflood_hits ch) uid of Some v \<Rightarrow> v | None \<Rightarrow> []);
                   v = recent_hits (clock s) (mf_secs f) old
               in if as_u32 (length v) > mf_lines f
                  then (Some (mf_ban f), update_chan key (\<lambda>c. c\<lparr>msgflood_hits := AList.delete uid (msgflood_hits c)\<rparr>) s)
                  else (None, update_chan key (\<lambda>c. c\<lparr>msgflood_hits := AList.update uid v (msgflood_hits c)\<rparr>) s)))"

definition joinflood_check :: "string \<Rightarrow> server \<Rightarrow> bool \<times> server" where
  "joinflood_check key s =
     (let n = clock s; dur = conf_num s ''joinflood_duration'' 60 in
      case map_of (channels s) key of
        None \<Rightarrow> (False, s)
      | Some ch \<Rightarrow>
          (case joinflood (modes ch) of
             None \<Rightarrow> (False, s)
           | Some f \<Rightarrow>
               if n < joinflood_until ch then (True, s)
               else
                 let v = recent_hits n (rate_secs f) (joinflood_hits ch) in
                 if as_u32 (length v) > rate_count f
                 then (True, update_chan key (\<lambda>c. c\<lparr>joinflood_until := add_u64 n dur, joinflood_hits := []\<rparr>) s)
                 else (False, update_chan key (\<lambda>c. c\<lparr>joinflood_hits := v\<rparr>) s)))"

text \<open>One channel of \<open>nickflood_blocked\<close>; \<open>blocked\<close> keeps the first locked channel.\<close>

definition nickflood_step :: "nat \<Rightarrow> string \<Rightarrow> string option \<times> server \<Rightarrow> string option \<times> server" where
  "nickflood_step dur key acc =
     (case acc of (blocked, s) \<Rightarrow>
        let n = clock s in
        case map_of (channels s) key of
          None \<Rightarrow> (blocked, s)
        | Some ch \<Rightarrow>
            (case nickflood (modes ch) of
               None \<Rightarrow> (blocked, s)
             | Some f \<Rightarrow>
                 let first = (case blocked of Some b \<Rightarrow> Some b | None \<Rightarrow> Some (chan_name ch)) in
                 if n < nickflood_until ch then (first, s)
                 else
                   let v = recent_hits n (rate_secs f) (nickflood_hits ch) in
                   if as_u32 (length v) > rate_count f
                   then (first, update_chan key (\<lambda>c. c\<lparr>nickflood_until := add_u64 n dur, nickflood_hits := []\<rparr>) s)
                   else (blocked, update_chan key (\<lambda>c. c\<lparr>nickflood_hits := v\<rparr>) s)))"

definition nickflood_blocked :: "uid \<Rightarrow> server \<Rightarrow> string option \<times> server" where
  "nickflood_blocked uid s =
     fold (nickflood_step (conf_num s ''nickflood_duration'' 60))
       (case map_of (users s) uid of Some u \<Rightarrow> joined_chans u | None \<Rightarrow> []) (None, s)"

section \<open>Background purges\<close>

definition expired_bans :: "server \<Rightarrow> (string \<times> string \<times> string) list" where
  "expired_bans s =
     concat (map (\<lambda>(key, ch).
       map (\<lambda>b. (key, chan_name ch, mask b))
         (filter (\<lambda>b. case expires b of Some e \<Rightarrow> e \<le> clock s | None \<Rightarrow> False) (bans ch))) (channels s))"

definition purge_tban :: "string \<times> string \<times> string \<Rightarrow> server \<Rightarrow> server" where
  "purge_tban e s =
     (case e of (key, name, m) \<Rightarrow>
        let s1 = update_chan key (\<lambda>c. c\<lparr>bans := filter (\<lambda>b. mask b \<noteq> m) (bans c)\<rparr>) s;
            s2 = to_channel key ('':'' @ srv_name s1 @ '' MODE '' @ name @ '' -b '' @ m) None s1
        in propagate_chan_mode (sid s2) name ''-b'' [m] s2)"

definition purge_tbans :: "server \<Rightarrow> server" where
  "purge_tbans s = fold purge_tban (expired_bans s) s"

definition purge_flood_state :: "server \<Rightarrow> server" where
  "purge_flood_state s =
     s\<lparr>channels := map (\<lambda>(key, ch).
        (key, ch\<lparr>msgflood_hits := filter (\<lambda>(u, _). map_of (members ch) u \<noteq> None) (msgflood_hits ch),
                 recent_kicks :=
                   (let window = (case kicknorejoin (modes ch) of Some w \<Rightarrow> w | None \<Rightarrow> 0) in
                    filter (\<lambda>(_, ts). window > 0 \<and> clock s - ts < window) (recent_kicks ch))\<rparr>))
        (channels s)\<rparr>"

section \<open>NAMES and history\<close>

definition names_tokens :: "server \<Rightarrow> uid \<Rightarrow> channel \<Rightarrow> string list" where
  "names_tokens s uid ch =
     (let cfg = prefix_conf s;
          multi = (case map_of (users s) uid of Some u \<Rightarrow> has_cap ''multi-prefix'' u | None \<Rightarrow> False);
          uhost = (case map_of (users s) uid of Some u \<Rightarrow> has_cap ''userhost-in-names'' u | None \<Rightarrow> False);
          hide = auditorium (modes ch)
                 \<and> (case map_of (members ch) uid of Some m \<Rightarrow> member_rank cfg m | None \<Rightarrow> 0) < RANK_OP;
          pfx = (\<lambda>m. if multi then all_prefixes cfg m else prefix_char cfg m)
      in List.map_filter (\<lambda>(m, fl).
           if hide \<and> m \<noteq> uid \<and> member_rank cfg fl < RANK_OP then None
           else if hidden fl \<and> m \<noteq> uid then None
           else map_option (\<lambda>u. pfx fl @ (if uhost then user_prefix u else nick u)) (map_of (users s) m))
           (members ch)
         @ List.map_filter (\<lambda>(ruuid, mem).
             if hide \<and> member_rank cfg mem < RANK_OP then None
             else map_option (\<lambda>ru. pfx mem @ (if uhost then remote_prefix ru else ru_nick ru))
                    (map_of (remote_users s) ruuid))
             (rmembers ch))"

text \<open>Fold the tokens into lines of at most \<open>budget\<close> bytes.\<close>

fun fold_names :: "nat \<Rightarrow> string \<Rightarrow> string list \<Rightarrow> string list" where
  "fold_names budget line [] = (if line \<noteq> [] then [line] else [])"
| "fold_names budget line (t # ts) =
     (if line \<noteq> [] \<and> length line + 1 + length t > budget then line # fold_names budget t ts
      else fold_names budget ((if line \<noteq> [] then line @ '' '' else line) @ t) ts)"

definition chan_vis :: "channel \<Rightarrow> string" where
  "chan_vis ch = (if secret (modes ch) then ''@'' else if private_chan (modes ch) then ''*'' else ''='')"

definition send_names :: "uid \<Rightarrow> string \<Rightarrow> server \<Rightarrow> server" where
  "send_names uid key s =
     (case map_of (channels s) key of
        None \<Rightarrow> numeric uid RPL_ENDOFNAMES (key @ '' :End of /NAMES list'') s
      | Some ch \<Rightarrow>
          if (secret (modes ch) \<or> private_chan (modes ch)) \<and> map_of (members ch) uid = None
             \<and> \<not> has_priv s uid ''channels/auspex''
          then numeric uid RPL_ENDOFNAMES (chan_name ch @ '' :End of /NAMES list'') s
          else
            let askern = (case map_of (users s) uid of Some u \<Rightarrow> length (nick u) | None \<Rightarrow> 1);
                budget = 500 - (length (srv_name s) + askern + length (chan_name ch) + 12);
                s1 = fold (\<lambda>line. numeric uid RPL_NAMREPLY (chan_vis ch @ '' '' @ chan_name ch @ '' :'' @ line))
                       (fold_names budget [] (names_tokens s uid ch)) s
            in numeric uid RPL_ENDOFNAMES (chan_name ch @ '' :End of /NAMES list'') s1)"

definition hex_digit :: "nat \<Rightarrow> char" where
  "hex_digit d = (if d < 10 then char_of (48 + d) else char_of (87 + d))"

fun show_hex :: "nat \<Rightarrow> string" where
  "show_hex n = (if n < 16 then [hex_digit n] else show_hex (n div 16) @ [hex_digit (n mod 16)])"

declare show_hex.simps [simp del]

definition next_msgid :: "server \<Rightarrow> string \<times> server" where
  "next_msgid s =
     (let n = (msgid_counter s + 1) mod 2 ^ 64 in
      (show_hex (start_time s) @ ''-'' @ show_hex n, s\<lparr>msgid_counter := n\<rparr>))"

definition replay_line :: "string \<Rightarrow> string option \<Rightarrow> hist_msg \<Rightarrow> string" where
  "replay_line name bref m =
     (let tags = ''time='' @ iso_time (hm_ts m) @ '';msgid='' @ hm_msgid m
                 @ (case bref of Some b \<Rightarrow> '';batch='' @ b | None \<Rightarrow> [])
      in case hm_raw m of
           Some raw \<Rightarrow> ''@'' @ tags @ '' '' @ raw
         | None \<Rightarrow> ''@'' @ tags @ '' :'' @ hm_prefix m @ '' '' @ hm_verb m @ '' '' @ name @ '' :'' @ hm_text m)"

definition replay_out :: "uid \<Rightarrow> string \<Rightarrow> string option \<Rightarrow> string list \<Rightarrow> server \<Rightarrow> server" where
  "replay_out uid name bref out s =
     (if out = [] then s
      else case bref of
             None \<Rightarrow> fold (send uid) out s
           | Some b \<Rightarrow>
               send uid ('':'' @ srv_name s @ '' BATCH -'' @ b)
                 (fold (send uid) out
                   (send uid ('':'' @ srv_name s @ '' BATCH +'' @ b @ '' chathistory '' @ name) s)))"

definition replay_chanhistory :: "uid \<Rightarrow> string \<Rightarrow> server \<Rightarrow> server" where
  "replay_chanhistory uid key s =
     (case map_of (channels s) key of
        None \<Rightarrow> s
      | Some ch \<Rightarrow>
          (case chan_history (modes ch) of
             None \<Rightarrow> s
           | Some (lines, secs) \<Rightarrow>
               let batch = (case map_of (users s) uid of Some u \<Rightarrow> has_cap ''batch'' u | None \<Rightarrow> False);
                   cutoff = (if secs > 0 then clock s - secs else 0);
                   bref = (if batch then Some (filter (\<lambda>c. c \<noteq> CHR ''-'') (fst (next_msgid s))) else None);
                   s1 = (if batch then snd (next_msgid s) else s);
                   want_events = (case map_of (users s1) uid of
                                    Some u \<Rightarrow> has_cap ''draft/event-playback'' u | None \<Rightarrow> False)
               in case map_of (history_store s1) key of
                    None \<Rightarrow> s1
                  | Some buf \<Rightarrow>
                      let recent = filter (\<lambda>m. hm_ts m \<ge> cutoff \<and> (want_events \<or> hm_raw m = None)) buf
                      in replay_out uid (chan_name ch) bref
                           (map (replay_line (chan_name ch) bref) (drop (length recent - lines) recent)) s1))"

section \<open>Join interceptors\<close>

record bad_chan =
  bc_glob :: string
  bc_reason :: string
  bc_redirect :: "string option"
  bc_allowopers :: bool

text \<open>\<open>tokenize\<close>: split on blanks, keeping \<open>key="quoted value"\<close> together.  The state is the finished
  tokens, the current one, whether inside quotes, and whether a token has begun.\<close>

definition tokenize_step :: "uchar \<Rightarrow> string list \<times> string \<times> bool \<times> bool \<Rightarrow> string list \<times> string \<times> bool \<times> bool" where
  "tokenize_step ch st =
     (case st of (out, cur, in_q, has) \<Rightarrow>
        if ch = [CHR 0x22] then (out, cur, \<not> in_q, True)
        else if is_whitespace ch \<and> \<not> in_q then (if has then (out @ [cur], [], in_q, False) else st)
        else (out, cur @ ch, in_q, True))"

definition tokenize :: "string \<Rightarrow> string list" where
  "tokenize line =
     (case fold tokenize_step (utf8_chars line) ([], [], False, False) of
        (out, cur, _, has) \<Rightarrow> if has then out @ [cur] else out)"

definition badchan_option :: "string \<Rightarrow> bad_chan \<Rightarrow> bad_chan" where
  "badchan_option tok bc =
     (case split_once (CHR ''='') tok of
        None \<Rightarrow> bc
      | Some (k, v) \<Rightarrow>
          if k = ''reason'' then bc\<lparr>bc_reason := v\<rparr>
          else if k = ''redirect'' then (if v \<noteq> [] then bc\<lparr>bc_redirect := Some v\<rparr> else bc)
          else if k = ''allowopers'' then bc\<lparr>bc_allowopers := yesish v\<rparr>
          else bc)"

definition badchan_parse :: "server \<Rightarrow> bad_chan list" where
  "badchan_parse s =
     List.map_filter (\<lambda>line.
       case tokenize line of
         [] \<Rightarrow> None
       | glob # attrs \<Rightarrow>
           if glob = [] then None
           else Some (fold badchan_option attrs
                  \<lparr>bc_glob = glob, bc_reason = ''Channel is forbidden.'', bc_redirect = None, bc_allowopers = False\<rparr>))
       (conf_all s ''badchan'')"

definition MAX_REDIR :: nat where "MAX_REDIR = 8"

text \<open>Where a join stands after some of its checks: over, sent on to another channel, or still allowed
  (with the flag that an oper override was used).\<close>

datatype join_step =
    Done server
  | DenyHop server string
  | LinkHop server string
  | Go bool server

fun step_bind :: "join_step \<Rightarrow> (bool \<Rightarrow> server \<Rightarrow> join_step) \<Rightarrow> join_step" where
  "step_bind (Go ov s) f = f ov s"
| "step_bind r f = r"

definition denychans_intercept :: "env \<Rightarrow> uid \<Rightarrow> string \<Rightarrow> bool \<Rightarrow> bool \<Rightarrow> server \<Rightarrow> join_step" where
  "denychans_intercept E uid name oper_user ov s =
     (if conf_all s ''badchan'' = [] then Go ov s
      else if list_ex (\<lambda>g. glob_match (str_lower E) g name) (conf_all s ''goodchan'') then Go ov s
      else case find (\<lambda>b. glob_match (str_lower E) (bc_glob b) name) (badchan_parse s) of
             None \<Rightarrow> Go ov s
           | Some bc \<Rightarrow>
               if oper_user \<and> bc_allowopers bc then Go ov s
               else
                 let s1 = numeric uid ERR_BADCHANNEL (name @ '' :'' @ bc_reason bc) s in
                 case bc_redirect bc of
                   None \<Rightarrow> Done s1
                 | Some redir \<Rightarrow>
                     if \<not> eq_ignore_ascii_case redir name \<and> redir_depth s1 < MAX_REDIR then
                       DenyHop (numeric uid ERR_LINKCHANNEL (name @ '' '' @ redir @ '' :You have been redirected.'')
                                  (s1\<lparr>redir_depth := redir_depth s1 + 1\<rparr>)) redir
                     else Done s1)"

definition restrictchans_intercept :: "env \<Rightarrow> uid \<Rightarrow> string \<Rightarrow> bool \<Rightarrow> bool \<Rightarrow> server \<Rightarrow> join_step" where
  "restrictchans_intercept E uid name may_create ov s =
     (if may_create \<or> \<not> conf_bool s ''restrictchans'' False then Go ov s
      else if map_of (channels s) (to_ascii_lowercase name) \<noteq> None then Go ov s
      else if list_ex (\<lambda>g. glob_match (str_lower E) g name) (conf_all s ''restrictchan'') then Go ov s
      else Done (numeric uid ERR_BADCHANNEL (name @ '' :Only IRC operators may create new channels here'') s))"

definition channames_intercept :: "uid \<Rightarrow> string \<Rightarrow> bool \<Rightarrow> server \<Rightarrow> join_step" where
  "channames_intercept uid name ov s =
     (case conf s ''channames_deny'' of
        None \<Rightarrow> Go ov s
      | Some deny \<Rightarrow>
          if deny = [] then Go ov s
          else if map_of (channels s) (to_ascii_lowercase name) \<noteq> None then Go ov s
          else if list_ex (\<lambda>c. c \<in> set (utf8_chars deny)) (utf8_chars name)
          then Done (numeric uid ERR_BADCHANNEL (name @ '' :Channel name contains characters not permitted here'') s)
          else Go ov s)"

definition matched_cban :: "env \<Rightarrow> server \<Rightarrow> string \<Rightarrow> string option" where
  "matched_cban E s chan =
     map_option x_reason (find (\<lambda>x. x_kind x = Cban \<and> (x_expires x = 0 \<or> x_expires x > clock s)
        \<and> glob_match (str_lower E) (to_ascii_lowercase (x_mask x)) (to_ascii_lowercase chan)) (xlines s))"

section \<open>Joining a channel\<close>

text \<open>The checks before the channel itself is looked at.\<close>

definition join_gate :: "env \<Rightarrow> uid \<Rightarrow> string \<Rightarrow> server \<Rightarrow> join_step" where
  "join_gate E uid name s =
     (let key = to_ascii_lowercase name; can = has_priv s uid ''channels/override'' in
      if \<not> valid_chan name (conf_num s ''maxchannel'' 50) then
        Done (numeric uid ERR_BADCHANNAME (name @ '' :Invalid channel name'') s)
      else if (case map_of (users s) uid of Some u \<Rightarrow> key \<in> set (joined_chans u) | None \<Rightarrow> True) then Done s
      else if \<not> can \<and> (case max_chans E s uid of
                          Some mx \<Rightarrow> (case map_of (users s) uid of Some u \<Rightarrow> length (joined_chans u) | None \<Rightarrow> 0) \<ge> mx
                        | None \<Rightarrow> False) then
        Done (numeric uid ERR_TOOMANYCHANNELS (name @ '' :You have joined too many channels'') s)
      else case (if can then None else matched_cban E s key) of
        Some reason \<Rightarrow>
          Done (numeric uid ERR_BADCHANNEL (name @ '' :Channel is CBAN'' @ [CHR 0x27] @ ''d: '' @ reason) s)
      | None \<Rightarrow>
          step_bind (denychans_intercept E uid name (is_oper s uid) False s) (\<lambda>ov s.
          step_bind (restrictchans_intercept E uid name (has_priv s uid ''channels/restricted-create'') ov s)
            (channames_intercept uid name)))"

text \<open>One restriction of an existing channel: it stops the join, or is overridden.\<close>

definition restrict :: "uid \<Rightarrow> bool \<Rightarrow> bool \<Rightarrow> nat \<Rightarrow> string \<Rightarrow> bool \<Rightarrow> server \<Rightarrow> join_step" where
  "restrict uid can hit code msg ov s =
     (if hit then (if \<not> can then Done (numeric uid code msg s) else Go True s) else Go ov s)"

definition check_key :: "uid \<Rightarrow> bool \<Rightarrow> string \<Rightarrow> string option \<Rightarrow> channel \<Rightarrow> bool \<Rightarrow> server \<Rightarrow> join_step" where
  "check_key uid can name key_arg ch ov s =
     restrict uid can (case chan_key (modes ch) of Some k \<Rightarrow> key_arg \<noteq> Some k | None \<Rightarrow> False)
       ERR_BADCHANNELKEY (name @ '' :Cannot join channel (+k)'') ov s"

definition check_ban :: "env \<Rightarrow> uid \<Rightarrow> bool \<Rightarrow> string \<Rightarrow> channel \<Rightarrow> bool \<Rightarrow> server \<Rightarrow> join_step" where
  "check_ban E uid can name ch ov s =
     (let key = to_ascii_lowercase name in
      if ban_list_hit E s uid (bans ch) \<and> \<not> ban_list_hit E s uid (excepts ch) then
        if \<not> can then
          (let refuse = Done (numeric uid ERR_BANNEDFROMCHAN (name @ '' :Cannot join channel (+b)'') s) in
           case redirect_target E s uid key of
             Some t \<Rightarrow>
               let tl = to_ascii_lowercase t in
               if \<not> in_redirect s \<and> tl \<noteq> key \<and> \<not> is_member s uid tl then
                 LinkHop (numeric uid ERR_LINKCHANNEL (name @ '' '' @ t @ '' :Cannot join channel (+b), redirecting'') s) t
               else refuse
           | None \<Rightarrow> refuse)
        else Go True s
      else Go ov s)"

definition check_access :: "env \<Rightarrow> uid \<Rightarrow> bool \<Rightarrow> string \<Rightarrow> channel \<Rightarrow> bool \<Rightarrow> server \<Rightarrow> join_step" where
  "check_access E uid can name ch ov s =
     step_bind (restrict uid can (invite_only (modes ch) \<and> uid \<notin> set (invites ch) \<and> \<not> ban_list_hit E s uid (invex ch))
       ERR_INVITEONLYCHAN (name @ '' :Cannot join channel (+i)'') ov s) (\<lambda>ov s.
     step_bind (restrict uid can
         (secure_only (modes ch) \<and> \<not> (case map_of (users s) uid of Some u \<Rightarrow> secure u | None \<Rightarrow> False))
       ERR_SECUREONLYCHAN (name @ '' :Cannot join channel; TLS users only (+z is set)'') ov s) (\<lambda>ov s.
     step_bind (restrict uid can
         (encrypted (modes ch) \<and> \<not> (case map_of (users s) uid of Some u \<Rightarrow> has_cap ''echoircd/e2e'' u | None \<Rightarrow> False))
       ERR_E2EONLYCHAN (name @ '' :Cannot join channel; an end-to-end encryption capable client is required (+E is set)'')
       ov s) (\<lambda>ov s.
     step_bind (restrict uid False (oper_only (modes ch) \<and> \<not> is_oper s uid)
       ERR_CANTJOINOPERSONLY (name @ '' :Cannot join channel; IRC operators only (+O is set)'') ov s) (\<lambda>ov s.
     step_bind (restrict uid can
         (reg_only (modes ch) \<and> (case map_of (users s) uid of Some u \<Rightarrow> account u = None | None \<Rightarrow> True))
       ERR_NEEDREGGEDNICK (name @ '' :Cannot join channel; you must be logged in (+R is set)'') ov s) (\<lambda>ov s.
     case (kicknorejoin (modes ch), map_of (recent_kicks ch) uid) of
       (Some secs, Some kt) \<Rightarrow>
         restrict uid can (clock s - kt < secs)
           ERR_DELAYREJOIN (name @ '' :You must wait '' @ show_nat secs @ ''s after a kick to rejoin (+J)'') ov s
     | _ \<Rightarrow> Go ov s)))))"

text \<open>The checks of an existing channel, \<open>+l\<close> with its \<open>+L\<close> redirect, and the \<open>+j\<close> counter.\<close>

definition check_limit :: "uid \<Rightarrow> bool \<Rightarrow> string \<Rightarrow> channel \<Rightarrow> bool \<Rightarrow> server \<Rightarrow> join_step" where
  "check_limit uid can name ch ov s =
     (let key = to_ascii_lowercase name;
          full = (case chan_limit (modes ch) of
                    Some l \<Rightarrow> as_u32 (length (members ch) + length (rmembers ch)) \<ge> l | None \<Rightarrow> False);
          refuse = Done (numeric uid ERR_CHANNELISFULL (name @ '' :Cannot join channel (+l)'') s)
      in if full \<and> can then Go True s
         else if full then
           (case redirect (modes ch) of
              Some t \<Rightarrow>
                if \<not> in_redirect s \<and> to_ascii_lowercase t \<noteq> key \<and> \<not> is_member s uid (to_ascii_lowercase t) then
                  LinkHop (numeric uid ERR_LINKCHANNEL (name @ '' '' @ t @ '' :Cannot join channel (+l), redirecting'') s) t
                else refuse
            | None \<Rightarrow> refuse)
         else Go ov s)"

definition check_joinflood :: "uid \<Rightarrow> bool \<Rightarrow> string \<Rightarrow> bool \<Rightarrow> server \<Rightarrow> join_step" where
  "check_joinflood uid can name ov s =
     (let key = to_ascii_lowercase name in
      if \<not> can \<and> map_of (channels s) key \<noteq> None then
        (case joinflood_check key s of (locked, s1) \<Rightarrow>
           if locked then
             Done (numeric uid ERR_UNAVAILRESOURCE
                     (name @ '' :This channel is temporarily unavailable (+j join flood)'') s1)
           else Go ov s1)
      else Go ov s)"

definition join_checks :: "env \<Rightarrow> uid \<Rightarrow> string \<Rightarrow> string option \<Rightarrow> server \<Rightarrow> join_step" where
  "join_checks E uid name key_arg s =
     (let key = to_ascii_lowercase name; can = has_priv s uid ''channels/override'' in
      step_bind (join_gate E uid name s) (\<lambda>ov s.
      step_bind
        (case map_of (channels s) key of
           None \<Rightarrow> Go ov s
         | Some ch \<Rightarrow>
             step_bind (check_key uid can name key_arg ch ov s) (\<lambda>ov s.
             step_bind (check_ban E uid can name ch ov s) (\<lambda>ov s.
             step_bind (check_access E uid can name ch ov s) (\<lambda>ov s.
               check_limit uid can name ch ov s))))
        (check_joinflood uid can name)))"

text \<open>The join itself: create the channel if it is new, with its creator as operator, enter the
  member on both sides, consume the invitation, and announce it.\<close>

definition join_enter :: "uid \<Rightarrow> string \<Rightarrow> server \<Rightarrow> server" where
  "join_enter uid name s =
     (let key = to_ascii_lowercase name;
          is_new = (map_of (channels s) key = None);
          m = default_member\<lparr>pfx_bits := (if is_new then PFX_OP else 0), joined := clock s\<rparr>;
          s1 = (if is_new then s\<lparr>channels := AList.update key (new_channel (clock s) name) (channels s)\<rparr> else s);
          s2 = update_chan key (\<lambda>c. c\<lparr>members := AList.update uid m (members c),
                 invites := set_remove uid (invites c), recent_kicks := AList.delete uid (recent_kicks c)\<rparr>) s1
      in update_user uid (\<lambda>u. u\<lparr>joined_chans := List.insert key (joined_chans u),
           invited := set_remove key (invited u)\<rparr>) s2)"

text \<open>Who sees the \<open>JOIN\<close>: everyone, only the joining user under \<open>+D\<close>, only operators and the joining
  user under \<open>+u\<close>.\<close>

definition announce_join :: "uid \<Rightarrow> user \<Rightarrow> string \<Rightarrow> channel \<Rightarrow> server \<Rightarrow> server" where
  "announce_join uid u name ch s =
     fold (\<lambda>m s'.
             if auditorium (modes ch) \<and> m \<noteq> uid \<and> rank s m (to_ascii_lowercase name) < RANK_OP then s'
             else if delayjoin (modes ch) \<and> m \<noteq> uid then s'
             else send_join u name m s')
       (map fst (members ch)) s"

definition send_topic :: "uid \<Rightarrow> string \<Rightarrow> topic option \<Rightarrow> server \<Rightarrow> server" where
  "send_topic uid name t s =
     (case t of
        None \<Rightarrow> s
      | Some t \<Rightarrow>
          numeric uid RPL_TOPICWHOTIME (name @ '' '' @ topic_setter t @ '' '' @ show_nat (topic_ts t))
            (numeric uid RPL_TOPIC (name @ '' :'' @ topic_text t) s))"

definition nick_of :: "server \<Rightarrow> uid \<Rightarrow> string" where
  "nick_of s uid = (case map_of (users s) uid of Some u \<Rightarrow> nick u | None \<Rightarrow> [])"

definition join_commit :: "env \<Rightarrow> uid \<Rightarrow> string \<Rightarrow> bool \<Rightarrow> server \<Rightarrow> server" where
  "join_commit E uid name overrode s0 =
     (let key = to_ascii_lowercase name;
          s = (if overrode then
                 snotice_c E ''v'' (trf (catalog_of s0) ''{0} used oper override to join {1}'' [nick_of s0 uid, name]) s0
               else s0);
          is_new = (map_of (channels s) key = None);
          s1 = join_enter uid name s;
          s2 = (if is_new \<and> (conf_bool s1 ''chancreate'' False \<or> conf_bool s1 ''announce_channels'' False) then
                  snotice_c E ''j'' (trf (catalog_of s1) ''{0} created channel {1}'' [nick_of s1 uid, name]) s1
                else s1)
      in case (map_of (users s2) uid, map_of (channels s2) key) of
           (Some u, Some ch) \<Rightarrow>
             let s3 = (if delayjoin (modes ch) then update_member key uid (\<lambda>m. m\<lparr>hidden := True\<rparr>) s2 else s2);
                 s4 = announce_join uid u name ch s3;
                 s5 = send_topic uid name (topic_of ch) s4;
                 s6 = (if has_cap ''no-implicit-names'' u then s5 else send_names uid key s5);
                 s7 = propagate_join uid name is_new (replay_chanhistory uid key s6)
             in s7\<lparr>events := events s7 @ [HJoin uid key]\<rparr>
         | _ \<Rightarrow> s2)"

fun join_fuel :: "nat \<Rightarrow> env \<Rightarrow> uid \<Rightarrow> string \<Rightarrow> string option \<Rightarrow> server \<Rightarrow> server option" where
  "join_fuel 0 E uid name key_arg s = None"
| "join_fuel (Suc n) E uid name key_arg s =
     (case join_checks E uid name key_arg s of
        Done s1 \<Rightarrow> Some s1
      | DenyHop s1 t \<Rightarrow>
          map_option (\<lambda>s2. s2\<lparr>redir_depth := redir_depth s2 - 1\<rparr>) (join_fuel n E uid t None s1)
      | LinkHop s1 t \<Rightarrow>
          map_option (\<lambda>s2. s2\<lparr>in_redirect := False\<rparr>) (join_fuel n E uid t None (s1\<lparr>in_redirect := True\<rparr>))
      | Go ov s1 \<Rightarrow> Some (join_commit E uid name ov s1))"

definition join :: "env \<Rightarrow> uid \<Rightarrow> string \<Rightarrow> string option \<Rightarrow> server \<Rightarrow> server" where
  "join E uid name key_arg s = (case join_fuel 10 E uid name key_arg s of Some s' \<Rightarrow> s' | None \<Rightarrow> s)"

section \<open>Renaming a channel\<close>

definition rekey :: "string \<Rightarrow> string \<Rightarrow> (string \<times> 'a) list \<Rightarrow> (string \<times> 'a) list" where
  "rekey oldkey newkey m =
     (case map_of m oldkey of Some v \<Rightarrow> AList.update newkey v (AList.delete oldkey m) | None \<Rightarrow> m)"

definition rekey_channel_state :: "string \<Rightarrow> string \<Rightarrow> server \<Rightarrow> server" where
  "rekey_channel_state oldkey newkey s =
     s\<lparr>history_store := rekey oldkey newkey (history_store s), meta_store := rekey oldkey newkey (meta_store s)\<rparr>"

definition emulate_rename_join :: "uid \<Rightarrow> string \<Rightarrow> string \<Rightarrow> string \<Rightarrow> string \<Rightarrow> server \<Rightarrow> server" where
  "emulate_rename_join m oldname newname newkey reason s =
     (case map_of (users s) m of
        None \<Rightarrow> s
      | Some u \<Rightarrow>
          let s1 = send m (part_line (user_prefix u) oldname reason) s;
              s2 = send m (if has_cap ''extended-join'' u then join_line_ext u newname else join_line u newname) s1;
              s3 = send_topic m newname (case map_of (channels s2) newkey of Some c \<Rightarrow> topic_of c | None \<Rightarrow> None) s2
          in send_names m newkey s3)"

definition move_channel :: "string \<Rightarrow> string \<Rightarrow> channel \<Rightarrow> server \<Rightarrow> server" where
  "move_channel oldkey newname ch s =
     (let newkey = to_ascii_lowercase newname;
          s1 = s\<lparr>channels := AList.update newkey (ch\<lparr>chan_name := newname\<rparr>) (AList.delete oldkey (channels s))\<rparr>;
          s2 = fold (\<lambda>m. update_user m (\<lambda>u. u\<lparr>joined_chans := List.insert newkey (set_remove oldkey (joined_chans u))\<rparr>))
                 (map fst (members ch)) s1
      in rekey_channel_state oldkey newkey s2)"

definition rename_channel :: "string \<Rightarrow> string \<Rightarrow> string \<Rightarrow> string \<Rightarrow> server \<Rightarrow> string option \<times> server" where
  "rename_channel oldkey newname src_prefix reason s =
     (let newkey = to_ascii_lowercase newname; case_only = (newkey = oldkey) in
      case map_of (channels s) oldkey of
        None \<Rightarrow> (None, s)
      | Some ch \<Rightarrow>
          if \<not> case_only \<and> map_of (channels s) newkey \<noteq> None then (None, s)
          else
            let s1 = (if case_only then update_chan oldkey (\<lambda>c. c\<lparr>chan_name := newname\<rparr>) s
                      else move_channel oldkey newname ch s);
                renline = '':'' @ src_prefix @ '' RENAME '' @ chan_name ch @ '' '' @ newname @ '' :'' @ reason
            in (Some newkey,
                fold (\<lambda>m s'.
                        if (case map_of (users s') m of Some u \<Rightarrow> has_cap ''draft/channel-rename'' u | None \<Rightarrow> False)
                        then send m renline s'
                        else if \<not> case_only then emulate_rename_join m (chan_name ch) newname newkey reason s'
                        else s')
                  (map fst (members ch)) s1))"

section \<open>Frames\<close>

lemma update_sel [simp]:
  "users (update_chan key f s) = users s" "channels (update_chan key f s) = map_key key f (channels s)"
  "users (update_user uid g s) = map_key uid g (users s)" "channels (update_user uid g s) = channels s"
  "users (update_member key uid h s) = users s"
  "channels (update_member key uid h s) = map_key key (\<lambda>c. c\<lparr>members := map_key uid h (members c)\<rparr>) (channels s)"
  "users (reap s) = users s" "channels (reap s) = retain_vals keep_alive (channels s)"
  by (simp_all add: update_chan_def update_user_def update_member_def reap_def)

lemma update_flags [simp]:
  "in_redirect (update_chan key f s) = in_redirect s" "redir_depth (update_chan key f s) = redir_depth s"
  "in_redirect (update_user uid g s) = in_redirect s" "redir_depth (update_user uid g s) = redir_depth s"
  "in_redirect (update_member key uid h s) = in_redirect s" "redir_depth (update_member key uid h s) = redir_depth s"
  by (simp_all add: update_chan_def update_user_def update_member_def)

interpretation to_channel_vis: output_op "to_channel_vis key line actor" for key line actor
  by unfold_locales (auto simp: to_channel_vis_def intro!: core_fold split: option.split)

interpretation send_join: output_op "send_join u name m" for u name m
  by unfold_locales (simp add: send_join_def)

interpretation announce_join: output_op "announce_join uid u name ch" for uid u name ch
  by unfold_locales (auto simp: announce_join_def intro!: core_fold)

interpretation send_topic: output_op "send_topic uid name t" for uid name t
  by unfold_locales (simp add: send_topic_def split: option.split)

interpretation send_names: output_op "send_names uid key" for uid key
  by unfold_locales (simp add: send_names_def Let_def core_fold split: option.split)

interpretation emulate_rename_join: output_op "emulate_rename_join m oldname newname newkey reason"
  for m oldname newname newkey reason
  by unfold_locales (simp add: emulate_rename_join_def Let_def split: option.split)

text \<open>A history replay consumes message ids and is otherwise output.\<close>

interpretation replay_out: output_op "replay_out uid name bref out" for uid name bref out
  by unfold_locales (simp add: replay_out_def core_fold split: option.split)

lemma next_msgid_sel [simp]:
  "users (snd (next_msgid s)) = users s" "channels (snd (next_msgid s)) = channels s"
  "in_redirect (snd (next_msgid s)) = in_redirect s" "redir_depth (snd (next_msgid s)) = redir_depth s"
  by (simp_all add: next_msgid_def Let_def)

lemma replay_sel [simp]:
  "users (replay_chanhistory uid key s) = users s" "channels (replay_chanhistory uid key s) = channels s"
  "in_redirect (replay_chanhistory uid key s) = in_redirect s"
  "redir_depth (replay_chanhistory uid key s) = redir_depth s"
  by (simp_all add: replay_chanhistory_def Let_def split: option.split prod.split)

end
