(* ===== verification/Indexes.thy ===== *)
theory Indexes
  imports Prelude
begin

text \<open>
  Derived tables.  The server keeps several tables that only repeat, in another shape, what the user
  table already says, so that a lookup need not scan all users: connection counts
  (\<open>src/modules/connclass.rs\<close>), the count of acceptances per nick (\<open>src/server.rs\<close>), and the reverse
  indexes of WATCH and MONITOR (\<open>src/watch.rs\<close>).  This theory has the two kinds of table, counts and
  reverse indexes, as contracts with the laws a client needs, and the sums over the user table they
  are compared with.
\<close>

section \<open>Counts\<close>

definition count_get :: "('k \<times> nat) list \<Rightarrow> 'k \<Rightarrow> nat" where
  "count_get m k = (case map_of m k of Some c \<Rightarrow> c | None \<Rightarrow> 0)"

definition count_inc :: "'k \<Rightarrow> ('k \<times> nat) list \<Rightarrow> ('k \<times> nat) list" where
  "count_inc k m = AList.update k (count_get m k + 1) m"

definition count_dec :: "'k \<Rightarrow> ('k \<times> nat) list \<Rightarrow> ('k \<times> nat) list" where
  "count_dec k m =
     (case map_of m k of
        None \<Rightarrow> m
      | Some c \<Rightarrow> if c - 1 = 0 then AList.delete k m else AList.update k (c - 1) m)"

text \<open>A table of counts has one entry per key and never stores a zero.\<close>

definition counts_wf :: "('k \<times> nat) list \<Rightarrow> bool" where
  "counts_wf m \<longleftrightarrow> distinct (map fst m) \<and> (\<forall>k. map_of m k \<noteq> Some 0)"

locale counter =
  fixes cnt :: "'m \<Rightarrow> 'k \<Rightarrow> nat"
    and inc :: "'k \<Rightarrow> 'm \<Rightarrow> 'm"
    and dec :: "'k \<Rightarrow> 'm \<Rightarrow> 'm"
    and wf :: "'m \<Rightarrow> bool"
    and nothing :: "'m"
  assumes cnt_nothing: "cnt nothing k = 0"
    and cnt_inc: "wf m \<Longrightarrow> cnt (inc k m) j = (if j = k then cnt m j + 1 else cnt m j)"
    and cnt_dec: "wf m \<Longrightarrow> cnt (dec k m) j = (if j = k then cnt m j - 1 else cnt m j)"
    and wf_nothing: "wf nothing"
    and wf_inc: "wf m \<Longrightarrow> wf (inc k m)"
    and wf_dec: "wf m \<Longrightarrow> wf (dec k m)"
begin

lemma wf_folds: "wf m \<Longrightarrow> wf (fold inc ks m)" "wf m \<Longrightarrow> wf (fold dec ks m)"
  by (induction ks arbitrary: m) (simp_all add: wf_inc wf_dec)

text \<open>Counting a whole list in, or out.\<close>

lemma cnt_fold_inc: "wf m \<Longrightarrow> cnt (fold inc ks m) j = cnt m j + count_list ks j"
  by (induction ks arbitrary: m) (simp_all add: cnt_inc wf_inc)

lemma cnt_fold_dec: "wf m \<Longrightarrow> cnt (fold dec ks m) j = cnt m j - count_list ks j"
  by (induction ks arbitrary: m) (simp_all add: cnt_dec wf_dec)

text \<open>A decrement undoes an increment, and moving one count from a key to another keeps the rest.\<close>

lemma dec_inc: "wf m \<Longrightarrow> cnt (dec k (inc k m)) j = cnt m j"
  by (simp add: cnt_inc cnt_dec wf_inc)

lemma cnt_move: "wf m \<Longrightarrow> cnt m a > 0 \<Longrightarrow> cnt (inc b (dec a m)) j + of_bool (j = a) = cnt m j + of_bool (j = b)"
  by (auto simp: cnt_inc cnt_dec wf_dec)

end

interpretation tab: counter count_get count_inc count_dec counts_wf "[] :: ('k \<times> nat) list"
proof
  fix m :: "('k \<times> nat) list" and k j :: 'k
  show "count_get [] k = 0" "counts_wf []" by (simp_all add: count_get_def counts_wf_def)
  assume wf: "counts_wf m"
  then have dist: "distinct (map fst m)" by (simp add: counts_wf_def)
  note defs = count_get_def count_inc_def count_dec_def hmap_simps
  show "count_get (count_inc k m) j = (if j = k then count_get m j + 1 else count_get m j)"
    by (simp add: defs)
  show "count_get (count_dec k m) j = (if j = k then count_get m j - 1 else count_get m j)"
    using dist by (cases "map_of m k") (simp_all add: defs del: map_of_eq_Some_iff)
  show "counts_wf (count_inc k m)" "counts_wf (count_dec k m)"
    using wf by (simp_all add: counts_wf_def defs distinct_update distinct_delete
        del: map_of_eq_Some_iff split: option.split)
qed

section \<open>Reverse indexes\<close>

definition index_add :: "'k \<Rightarrow> 'v \<Rightarrow> ('k \<times> 'v list) list \<Rightarrow> ('k \<times> 'v list) list" where
  "index_add k v m = AList.update k (List.insert v (case map_of m k of Some vs \<Rightarrow> vs | None \<Rightarrow> [])) m"

definition index_remove :: "'k \<Rightarrow> 'v \<Rightarrow> ('k \<times> 'v list) list \<Rightarrow> ('k \<times> 'v list) list" where
  "index_remove k v m =
     (case map_of m k of
        None \<Rightarrow> m
      | Some vs \<Rightarrow>
          let vs' = set_remove v vs in if vs' = [] then AList.delete k m else AList.update k vs' m)"

definition index_has :: "('k \<times> 'v list) list \<Rightarrow> 'k \<Rightarrow> 'v \<Rightarrow> bool" where
  "index_has m k v = (case map_of m k of Some vs \<Rightarrow> v \<in> set vs | None \<Rightarrow> False)"

text \<open>An index has one entry per key, each a non-empty list without repetitions.\<close>

definition index_wf :: "('k \<times> 'v list) list \<Rightarrow> bool" where
  "index_wf m \<longleftrightarrow> distinct (map fst m) \<and> (\<forall>k vs. map_of m k = Some vs \<longrightarrow> vs \<noteq> [] \<and> distinct vs)"

locale reverse_index =
  fixes has :: "'m \<Rightarrow> 'k \<Rightarrow> 'v \<Rightarrow> bool"
    and add :: "'k \<Rightarrow> 'v \<Rightarrow> 'm \<Rightarrow> 'm"
    and remove :: "'k \<Rightarrow> 'v \<Rightarrow> 'm \<Rightarrow> 'm"
    and wf :: "'m \<Rightarrow> bool"
  assumes has_add: "wf m \<Longrightarrow> has (add k v m) j w \<longleftrightarrow> has m j w \<or> j = k \<and> w = v"
    and has_remove: "wf m \<Longrightarrow> has (remove k v m) j w \<longleftrightarrow> has m j w \<and> \<not> (j = k \<and> w = v)"
    and wf_add: "wf m \<Longrightarrow> wf (add k v m)"
    and wf_remove: "wf m \<Longrightarrow> wf (remove k v m)"
begin

lemma wf_remove_all: "wf m \<Longrightarrow> wf (fold (\<lambda>k. remove k v) ks m)"
  by (induction ks arbitrary: m) (simp_all add: wf_remove)

text \<open>Taking one value out under all keys of a list.\<close>

lemma has_remove_all:
  "wf m \<Longrightarrow> has (fold (\<lambda>k. remove k v) ks m) j w \<longleftrightarrow> has m j w \<and> \<not> (j \<in> set ks \<and> w = v)"
  by (induction ks arbitrary: m) (auto simp: has_remove wf_remove)

end

interpretation ridx: reverse_index index_has index_add index_remove index_wf
proof
  fix m :: "('a \<times> 'b list) list" and k j :: 'a and v w :: 'b
  assume wf: "index_wf m"
  then have dist: "distinct (map fst m)" by (simp add: index_wf_def)
  show "index_has (index_add k v m) j w \<longleftrightarrow> index_has m j w \<or> j = k \<and> w = v"
    by (auto simp: index_has_def index_add_def hmap_simps split: option.split)
  show "index_has (index_remove k v m) j w \<longleftrightarrow> index_has m j w \<and> \<not> (j = k \<and> w = v)"
  proof (cases "map_of m k")
    case (Some vs)
    have "set_remove v vs = [] \<Longrightarrow> set vs \<subseteq> {v}" using set_set_remove [of v vs] by auto
    then show ?thesis
      using dist Some by (auto simp: index_has_def index_remove_def Let_def hmap_simps split: option.split)
  qed (auto simp: index_has_def index_remove_def split: option.split)
  show "index_wf (index_add k v m)"
    using wf by (auto simp: index_wf_def index_add_def hmap_simps distinct_update List.insert_def
        simp del: map_of_eq_Some_iff split: option.split)
  show "index_wf (index_remove k v m)"
    using wf by (simp add: index_wf_def index_remove_def Let_def hmap_simps distinct_update distinct_delete
        del: map_of_eq_Some_iff split: option.split)
qed

end
