(* ===== verification/Users.thy ===== *)
theory Users
  imports Channels Indexes
begin

text \<open>
  The life of a connection: \<open>src/users.rs\<close>, \<open>src/watch.rs\<close>, \<open>src/connguard.rs\<close>, the counters of
  \<open>src/modules/connclass.rs\<close>, and the connection part of \<open>src/server.rs\<close>.  A connection is filed, takes
  nicks, and is removed; each of these keeps the derived tables in step: the nick index, the uuid
  index, the connection counts, the WATCH and MONITOR indexes and the acceptance counts.
\<close>

definition RPL_LOGON :: nat where "RPL_LOGON = 600"
definition RPL_LOGOFF :: nat where "RPL_LOGOFF = 601"
definition RPL_MONONLINE :: nat where "RPL_MONONLINE = 730"
definition RPL_MONOFFLINE :: nat where "RPL_MONOFFLINE = 731"

section \<open>Network ids\<close>

text \<open>Six letters, the counter in base 26.\<close>

fun uuid_suffix :: "nat \<Rightarrow> nat \<Rightarrow> string" where
  "uuid_suffix 0 x = []"
| "uuid_suffix (Suc n) x = uuid_suffix n (x div 26) @ [char_of (65 + x mod 26)]"

definition uuid_of :: "server \<Rightarrow> nat \<Rightarrow> string" where
  "uuid_of s x = sid s @ uuid_suffix 6 x"

definition uuid_live :: "server \<Rightarrow> string \<Rightarrow> bool" where
  "uuid_live s uu \<longleftrightarrow> map_of (uuid_local s) uu \<noteq> None \<or> map_of (remote_users s) uu \<noteq> None"

text \<open>The loop runs until it finds an id nobody holds; it would run for ever if all were held.\<close>

partial_function (option) next_uuid :: "server \<Rightarrow> (string \<times> server) option" where
  "next_uuid s =
     (let x = uuid_counter s;
          s1 = s\<lparr>uuid_counter := add_u64 x 1\<rparr>
      in if \<not> uuid_live s1 (uuid_of s1 x) then Some (uuid_of s1 x, s1) else next_uuid s1)"

section \<open>Connection counts\<close>

definition count_connect :: "string \<Rightarrow> server \<Rightarrow> server" where
  "count_connect addr s = s\<lparr>per_ip := count_inc addr (per_ip s)\<rparr>"

definition count_disconnect :: "string \<Rightarrow> string option \<Rightarrow> server \<Rightarrow> server" where
  "count_disconnect addr cls s =
     (let s1 = s\<lparr>per_ip := count_dec addr (per_ip s)\<rparr> in
      case cls of
        None \<Rightarrow> s1
      | Some name \<Rightarrow>
          s1\<lparr>per_class := count_dec name (per_class s1), per_ip_class := count_dec (addr, name) (per_ip_class s1)\<rparr>)"

definition set_class :: "uid \<Rightarrow> string \<Rightarrow> server \<Rightarrow> server" where
  "set_class uid name s =
     (case map_of (users s) uid of
        None \<Rightarrow> s
      | Some u \<Rightarrow>
          if conn_class u = Some name then s
          else
            let s1 = (case conn_class u of
                        None \<Rightarrow> s
                      | Some old \<Rightarrow> s\<lparr>per_class := count_dec old (per_class s),
                                      per_ip_class := count_dec (ip u, old) (per_ip_class s)\<rparr>);
                s2 = s1\<lparr>per_class := count_inc name (per_class s1),
                        per_ip_class := count_inc (ip u, name) (per_ip_class s1)\<rparr>
            in update_user uid (\<lambda>u. u\<lparr>conn_class := Some name\<rparr>) s2)"

text \<open>The caller (WEBIRC) has stored the new address already.\<close>

definition change_ip :: "uid \<Rightarrow> string \<Rightarrow> string \<Rightarrow> server \<Rightarrow> server" where
  "change_ip uid old new s =
     (if old = new then s
      else
        let cls = (case map_of (users s) uid of Some u \<Rightarrow> conn_class u | None \<Rightarrow> None);
            s1 = s\<lparr>per_ip := count_inc new (count_dec old (per_ip s))\<rparr>
        in case cls of
             None \<Rightarrow> s1
           | Some cl \<Rightarrow> s1\<lparr>per_ip_class := count_inc (new, cl) (count_dec (old, cl) (per_ip_class s1))\<rparr>)"

definition classes_of :: "(uid \<times> user) list \<Rightarrow> string list" where
  "classes_of us = List.map_filter (\<lambda>(_, u). conn_class u) us"

definition ip_classes_of :: "(uid \<times> user) list \<Rightarrow> (string \<times> string) list" where
  "ip_classes_of us = List.map_filter (\<lambda>(_, u). map_option (\<lambda>cl. (ip u, cl)) (conn_class u)) us"

definition rebuild :: "server \<Rightarrow> server" where
  "rebuild s =
     s\<lparr>per_ip := fold count_inc (map (\<lambda>(_, u). ip u) (users s)) [],
       per_class := fold count_inc (classes_of (users s)) [],
       per_ip_class := fold count_inc (ip_classes_of (users s)) []\<rparr>"

definition class_count :: "server \<Rightarrow> string \<Rightarrow> uid \<Rightarrow> nat" where
  "class_count s name uid =
     count_get (per_class s) name
     - of_bool (case map_of (users s) uid of Some u \<Rightarrow> conn_class u = Some name | None \<Rightarrow> False)"

definition local_clones :: "server \<Rightarrow> string \<Rightarrow> string \<Rightarrow> uid \<Rightarrow> nat" where
  "local_clones s addr name uid =
     count_get (per_ip_class s) (addr, name)
     - of_bool (case map_of (users s) uid of Some u \<Rightarrow> ip u = addr \<and> conn_class u = Some name | None \<Rightarrow> False)"

section \<open>The guard against unregistered connections\<close>

definition note_connect :: "server \<Rightarrow> server" where
  "note_connect s = s\<lparr>unreg_count := unreg_count s + 1\<rparr>"

definition note_registered :: "server \<Rightarrow> server" where
  "note_registered s = s\<lparr>unreg_count := unreg_count s - 1\<rparr>"

definition note_removed_unreg :: "server \<Rightarrow> server" where
  "note_removed_unreg s = s\<lparr>unreg_count := unreg_count s - 1\<rparr>"

text \<open>\<open>conf_num\<close> at type \<open>i64\<close>.\<close>

definition conf_int :: "server \<Rightarrow> string \<Rightarrow> int \<Rightarrow> int" where
  "conf_int s k d = (case conf s k of
                       Some v \<Rightarrow> (case parse_int 64 v of Some n \<Rightarrow> n | None \<Rightarrow> d)
                     | None \<Rightarrow> d)"

definition over_cap :: "server \<Rightarrow> bool" where
  "over_cap s = (let cap = conf_int s ''max_unregistered'' 0 in cap > 0 \<and> int (unreg_count s) > cap)"

definition flood_active :: "server \<Rightarrow> bool" where
  "flood_active s = (let water = conf_int s ''unreg_floodwater'' 0 in water > 0 \<and> int (unreg_count s) > water)"

definition flood_timeout :: "server \<Rightarrow> nat option" where
  "flood_timeout s = (if flood_active s then Some (conf_num s ''unreg_flood_timeout'' 30) else None)"

definition live_unregistered :: "server \<Rightarrow> nat" where
  "live_unregistered s = length (filter (\<lambda>(_, u). \<not> registered u) (users s))"

definition show_int :: "int \<Rightarrow> string" where
  "show_int i = (if i < 0 then ''-'' @ show_nat (nat (- i)) else show_nat (nat i))"

definition guard_tick :: "env \<Rightarrow> server \<Rightarrow> server" where
  "guard_tick E s =
     (let live = live_unregistered s;
          water = conf_int s ''unreg_floodwater'' 0;
          now_flood = (water > 0 \<and> int live > water);
          was_flood = unreg_flood s;
          s1 = s\<lparr>unreg_count := live, unreg_flood := now_flood\<rparr>
      in if now_flood \<and> \<not> was_flood then
           snotice_c E ''x'' (''Unregistered-connection flood: '' @ show_nat live @ '' pending (> '' @ show_int water
             @ '') '' @ [CHR 0xE2, CHR 0x80, CHR 0x94] @ '' handshake timeout cut to ''
             @ show_nat (conf_num s1 ''unreg_flood_timeout'' 30) @ ''s'') s1
         else if \<not> now_flood \<and> was_flood then
           snotice_c E ''x'' (''Unregistered-connection flood cleared: '' @ show_nat live @ '' pending'') s1
         else s1)"

section \<open>WATCH, MONITOR, SILENCE and ACCEPT\<close>

definition watch_notify_online :: "string \<Rightarrow> server \<Rightarrow> server" where
  "watch_notify_online n s =
     (case find_nick s n of
        None \<Rightarrow> s
      | Some tu \<Rightarrow>
          (case map_of (users s) tu of
             None \<Rightarrow> s
           | Some x \<Rightarrow>
               let low = to_ascii_lowercase n;
                   watchers = (case map_of (watch_by s) low of Some us \<Rightarrow> us | None \<Rightarrow> []);
                   monitors = (case map_of (monitor_by s) low of Some us \<Rightarrow> us | None \<Rightarrow> []);
                   s1 = fold (\<lambda>w. numeric w RPL_LOGON (nick x @ '' '' @ ident x @ '' '' @ host_display x @ '' ''
                                    @ show_nat (signon x) @ '' :is now online'')) watchers s
               in fold (\<lambda>w. numeric w RPL_MONONLINE ('':'' @ user_prefix x)) monitors s1))"

definition watch_notify_offline :: "string \<Rightarrow> server \<Rightarrow> server" where
  "watch_notify_offline n s =
     (let low = to_ascii_lowercase n;
          watchers = (case map_of (watch_by s) low of Some us \<Rightarrow> us | None \<Rightarrow> []);
          monitors = (case map_of (monitor_by s) low of Some us \<Rightarrow> us | None \<Rightarrow> []);
          s1 = fold (\<lambda>w. numeric w RPL_LOGOFF (n @ '' * * '' @ show_nat (clock s) @ '' :is now offline'')) watchers s
      in fold (\<lambda>w. numeric w RPL_MONOFFLINE ('':'' @ n)) monitors s1)"

definition watchers_of :: "server \<Rightarrow> string \<Rightarrow> nat" where
  "watchers_of s n = (case map_of (watch_by s) (to_ascii_lowercase n) of Some us \<Rightarrow> length us | None \<Rightarrow> 0)"

definition watch_index_add :: "uid \<Rightarrow> string \<Rightarrow> server \<Rightarrow> server" where
  "watch_index_add uid low s =
     (case map_of (users s) uid of
        None \<Rightarrow> s
      | Some u \<Rightarrow>
          if low \<in> set (watch u) then s
          else (update_user uid (\<lambda>u. u\<lparr>watch := watch u @ [low]\<rparr>) s)\<lparr>watch_by := index_add low uid (watch_by s)\<rparr>)"

definition watch_index_remove :: "uid \<Rightarrow> string \<Rightarrow> server \<Rightarrow> server" where
  "watch_index_remove uid low s =
     (case map_of (users s) uid of
        None \<Rightarrow> s
      | Some u \<Rightarrow>
          let s1 = update_user uid (\<lambda>u. u\<lparr>watch := filter (\<lambda>n. n \<noteq> low) (watch u)\<rparr>) s in
          if length (filter (\<lambda>n. n \<noteq> low) (watch u)) \<noteq> length (watch u)
          then s1\<lparr>watch_by := index_remove low uid (watch_by s1)\<rparr> else s1)"

definition watch_index_clear :: "uid \<Rightarrow> server \<Rightarrow> server" where
  "watch_index_clear uid s =
     (case map_of (users s) uid of
        None \<Rightarrow> s
      | Some u \<Rightarrow>
          let s1 = update_user uid (\<lambda>u. u\<lparr>watch := []\<rparr>) s in
          s1\<lparr>watch_by := fold (\<lambda>n. index_remove n uid) (watch u) (watch_by s1)\<rparr>)"

definition monitor_index_add :: "uid \<Rightarrow> string \<Rightarrow> server \<Rightarrow> server" where
  "monitor_index_add uid low s =
     (case map_of (users s) uid of
        None \<Rightarrow> s
      | Some u \<Rightarrow>
          if low \<in> set (monitor u) then s
          else (update_user uid (\<lambda>u. u\<lparr>monitor := monitor u @ [low]\<rparr>) s)\<lparr>monitor_by := index_add low uid (monitor_by s)\<rparr>)"

definition monitor_index_remove :: "uid \<Rightarrow> string \<Rightarrow> server \<Rightarrow> server" where
  "monitor_index_remove uid low s =
     (case map_of (users s) uid of
        None \<Rightarrow> s
      | Some u \<Rightarrow>
          let s1 = update_user uid (\<lambda>u. u\<lparr>monitor := filter (\<lambda>n. n \<noteq> low) (monitor u)\<rparr>) s in
          if length (filter (\<lambda>n. n \<noteq> low) (monitor u)) \<noteq> length (monitor u)
          then s1\<lparr>monitor_by := index_remove low uid (monitor_by s1)\<rparr> else s1)"

definition monitor_index_clear :: "uid \<Rightarrow> server \<Rightarrow> server" where
  "monitor_index_clear uid s =
     (case map_of (users s) uid of
        None \<Rightarrow> s
      | Some u \<Rightarrow>
          let s1 = update_user uid (\<lambda>u. u\<lparr>monitor := []\<rparr>) s in
          s1\<lparr>monitor_by := fold (\<lambda>n. index_remove n uid) (monitor u) (monitor_by s1)\<rparr>)"

definition is_accepted :: "server \<Rightarrow> uid \<Rightarrow> string \<Rightarrow> bool" where
  "is_accepted s target sender =
     (case map_of (users s) target of Some u \<Rightarrow> to_ascii_lowercase sender \<in> set (accept u) | None \<Rightarrow> False)"

definition is_silenced :: "env \<Rightarrow> server \<Rightarrow> uid \<Rightarrow> string \<Rightarrow> bool" where
  "is_silenced E s by' sender_mask =
     (case map_of (users s) by' of
        Some u \<Rightarrow> list_ex (\<lambda>m. glob_match (str_lower E) m sender_mask) (silence u)
      | None \<Rightarrow> False)"

definition signore_one_way :: "env \<Rightarrow> server \<Rightarrow> uid \<Rightarrow> uid \<Rightarrow> bool" where
  "signore_one_way E s by' who =
     (case map_of (users s) by' of
        None \<Rightarrow> False
      | Some byu \<Rightarrow>
          if signore byu = [] then False
          else
            let m = (case map_of (users s) who of Some u \<Rightarrow> user_prefix u | None \<Rightarrow> []) in
            list_ex (\<lambda>g. glob_match (str_lower E) g m) (signore byu))"

definition signore_blocks :: "env \<Rightarrow> server \<Rightarrow> uid \<Rightarrow> uid \<Rightarrow> bool" where
  "signore_blocks E s a b \<longleftrightarrow> signore_one_way E s a b \<or> signore_one_way E s b a"

definition accept_add :: "uid \<Rightarrow> string \<Rightarrow> server \<Rightarrow> server" where
  "accept_add uid low s =
     (if map_of (users s) uid = None then s
      else (update_user uid (\<lambda>u. u\<lparr>accept := accept u @ [low]\<rparr>) s)\<lparr>accepted_nicks := count_inc low (accepted_nicks s)\<rparr>)"

definition accept_remove :: "uid \<Rightarrow> string \<Rightarrow> server \<Rightarrow> server" where
  "accept_remove uid low s =
     (case map_of (users s) uid of
        None \<Rightarrow> s
      | Some u \<Rightarrow>
          let s1 = update_user uid (\<lambda>u. u\<lparr>accept := filter (\<lambda>x. x \<noteq> low) (accept u)\<rparr>) s in
          if length (accept u) \<noteq> length (filter (\<lambda>x. x \<noteq> low) (accept u))
          then s1\<lparr>accepted_nicks := count_dec low (accepted_nicks s1)\<rparr> else s1)"

section \<open>Records of the past\<close>

definition push_whowas :: "string \<Rightarrow> string \<Rightarrow> string \<Rightarrow> string \<Rightarrow> string option \<Rightarrow> server \<Rightarrow> server" where
  "push_whowas n id' h rn acct s =
     (if n = [] then s
      else s\<lparr>whowas := take (conf_num s ''whowas_maxentries'' 256)
               (\<lparr>ww_nick = n, ww_ident = id', ww_host = h, ww_realname = rn, ww_account = acct, ww_ts = clock s\<rparr>
                # whowas s)\<rparr>)"

definition history_limit :: "server \<Rightarrow> nat" where
  "history_limit s = min (max (conf_num s ''chathistory_limit'' 256) 1) 100000"

definition history_push :: "string \<Rightarrow> hist_msg \<Rightarrow> server \<Rightarrow> server" where
  "history_push key m s =
     (let buf = (case map_of (history_store s) key of Some b \<Rightarrow> b | None \<Rightarrow> []) @ [m]
      in s\<lparr>history_store := AList.update key (drop (length buf - history_limit s) buf) (history_store s)\<rparr>)"

definition record_msg :: "string \<Rightarrow> string \<Rightarrow> string \<Rightarrow> string \<Rightarrow> string \<Rightarrow> string \<Rightarrow> server \<Rightarrow> server" where
  "record_msg key pfx verb target txt msgid s =
     history_push key \<lparr>hm_ts = clock s, hm_msgid = msgid, hm_prefix = pfx, hm_verb = verb, hm_target = target,
       hm_text = txt, hm_raw = None\<rparr> s"

definition record_event :: "string \<Rightarrow> string \<Rightarrow> server \<Rightarrow> server" where
  "record_event key line s =
     (if \<not> conf_bool s ''event_playback'' True then s
      else
        let s1 = snd (next_msgid s);
            pfx = (case strip_prefix '':'' line of Some l \<Rightarrow> hd (split_char (CHR '' '') l) | None \<Rightarrow> [])
        in history_push key \<lparr>hm_ts = clock s, hm_msgid = fst (next_msgid s), hm_prefix = pfx, hm_verb = ''*'',
             hm_target = key, hm_text = [], hm_raw = Some line\<rparr> s1)"

definition forget_msg :: "string \<Rightarrow> string \<Rightarrow> server \<Rightarrow> server" where
  "forget_msg key msgid s =
     s\<lparr>history_store := map_key key (filter (\<lambda>m. hm_msgid m \<noteq> msgid)) (history_store s)\<rparr>"

text \<open>The event bus: a line for the configured redis channel.\<close>

definition publish_event :: "string list \<Rightarrow> server \<Rightarrow> server" where
  "publish_event evt s =
     (case redis_state s of
        None \<Rightarrow> s
      | Some st \<Rightarrow>
          if (case rd_events st of
                None \<Rightarrow> False
              | Some allow \<Rightarrow> (case evt of kind # _ \<Rightarrow> kind \<notin> set allow | [] \<Rightarrow> True))
          then s
          else s\<lparr>redis_out := redis_out s @ [(rd_channel st, join_with [CHR 0x09] evt)]\<rparr>)"

section \<open>Introducing users to other servers\<close>

definition uid_line :: "server \<Rightarrow> user \<Rightarrow> string" where
  "uid_line s u =
     '':'' @ sid s @ '' UID '' @ uuid u @ '' '' @ show_nat (signon u) @ '' '' @ nick u @ '' '' @ host u @ '' ''
     @ host_display u @ '' '' @ ident u @ '' '' @ ident u @ '' '' @ ip u @ '' '' @ show_nat (signon u) @ '' ''
     @ umodes (flags u) @ '' :'' @ realname u"

definition user_intro_lines :: "server \<Rightarrow> user \<Rightarrow> string list" where
  "user_intro_lines s u =
     uid_line s u
     # (case account u of Some acct \<Rightarrow> ['':'' @ sid s @ '' METADATA '' @ uuid u @ '' accountname :'' @ acct] | None \<Rightarrow> [])
     @ (case certfp u of Some fp \<Rightarrow> ['':'' @ sid s @ '' METADATA '' @ uuid u @ '' ssl_cert :vsT '' @ fp] | None \<Rightarrow> [])"

definition burst_users :: "uid \<Rightarrow> server \<Rightarrow> server" where
  "burst_users link_uid s =
     fold (link_out link_uid) (concat (map (\<lambda>(_, u). user_intro_lines s u) (filter (\<lambda>(_, u). registered u) (users s)))) s"

definition introduce_to_links :: "uid \<Rightarrow> server \<Rightarrow> server" where
  "introduce_to_links uid s =
     (if links s = [] then s
      else case map_of (users s) uid of
             None \<Rightarrow> s
           | Some u \<Rightarrow> fold (\<lambda>l. propagate l None) (user_intro_lines s u) s)"

definition propagate_nick :: "uid \<Rightarrow> string \<Rightarrow> server \<Rightarrow> server" where
  "propagate_nick uid newnick s =
     (case map_of (users s) uid of
        None \<Rightarrow> s
      | Some u \<Rightarrow>
          if registered u \<and> links s \<noteq> [] then
            propagate ('':'' @ uuid u @ '' NICK '' @ newnick @ '' '' @ show_nat (clock s)) None s
          else s)"

section \<open>Connecting\<close>

text \<open>\<open>add_conn\<close> up to its admission checks: the connection is filed under a fresh network id and
  counted.  The checks that follow either leave it or call \<open>remove_user\<close>.\<close>

definition file_conn :: "uid \<Rightarrow> string \<Rightarrow> bool \<Rightarrow> string option \<Rightarrow> string option \<Rightarrow> server \<Rightarrow> server option" where
  "file_conn uid addr sec fp brand s =
     (case next_uuid s of
        None \<Rightarrow> None
      | Some (uu, s1) \<Rightarrow>
          Some (count_connect addr (note_connect
            (s1\<lparr>uuid_local := AList.update uu uid (uuid_local s1),
                users := AList.update uid (new_user uu addr sec fp brand (clock s1)) (users s1)\<rparr>))))"

definition mint_puppet :: "uid \<Rightarrow> string \<Rightarrow> string \<Rightarrow> string \<Rightarrow> string \<Rightarrow> server \<Rightarrow> server option" where
  "mint_puppet uid n id' h rn s =
     (case next_uuid s of
        None \<Rightarrow> None
      | Some (uu, s1) \<Rightarrow>
          let u = (new_user uu ''127.0.0.1'' False None None (clock s1))\<lparr>nick := n, ident := id', realname := rn,
                     host := h, registered := True, flags := default_flags\<lparr>bot := True\<rparr>\<rparr>
          in Some (introduce_to_links uid (count_connect ''127.0.0.1''
               (s1\<lparr>uuid_local := AList.update uu uid (uuid_local s1),
                   users := AList.update uid u (users s1),
                   nick_index := AList.update (to_ascii_lowercase n) uid (nick_index s1)\<rparr>))))"

definition puppet_join :: "uid \<Rightarrow> string \<Rightarrow> server \<Rightarrow> server" where
  "puppet_join uid chan s =
     (let key = to_ascii_lowercase chan in
      case (map_of (channels s) key, map_of (users s) uid) of
        (Some c, Some u) \<Rightarrow>
          if map_of (members c) uid \<noteq> None then s
          else
            let s1 = update_user uid (\<lambda>u. u\<lparr>joined_chans := List.insert key (joined_chans u)\<rparr>)
                       (update_chan key (\<lambda>c. c\<lparr>members := AList.update uid default_member (members c)\<rparr>) s)
            in propagate_join uid chan False
                 (to_channel key ('':'' @ user_prefix u @ '' JOIN '' @ chan) None s1)
      | _ \<Rightarrow> s)"

text \<open>The step of \<open>welcome\<close> that turns a connection into a registered user.\<close>

definition mark_registered :: "uid \<Rightarrow> server \<Rightarrow> server" where
  "mark_registered uid s =
     (let was_unreg = (case map_of (users s) uid of Some u \<Rightarrow> \<not> registered u | None \<Rightarrow> False);
          s1 = update_user uid (\<lambda>u. u\<lparr>registered := True\<rparr>) s
      in if was_unreg then note_registered s1 else s1)"

section \<open>Leaving\<close>

definition mark_quit :: "uid \<Rightarrow> string \<Rightarrow> server \<Rightarrow> server" where
  "mark_quit uid reason s = update_user uid (\<lambda>u. u\<lparr>quitting := Some reason\<rparr>) s"

definition take_quit :: "uid \<Rightarrow> server \<Rightarrow> string option \<times> server" where
  "take_quit uid s =
     ((case map_of (users s) uid of Some u \<Rightarrow> quitting u | None \<Rightarrow> None),
      update_user uid (\<lambda>u. u\<lparr>quitting := None\<rparr>) s)"

text \<open>A nick that is given up disappears from every ACCEPT list; the scan is skipped when the count
  says that no list has it.\<close>

definition scrub_accepts :: "string \<Rightarrow> server \<Rightarrow> server" where
  "scrub_accepts low s =
     (let c = count_get (accepted_nicks s) low;
          s1 = s\<lparr>accepted_nicks := AList.delete low (accepted_nicks s)\<rparr>
      in if c > 0 then s1\<lparr>users := map (\<lambda>(i, u). (i, u\<lparr>accept := filter (\<lambda>n. n \<noteq> low) (accept u)\<rparr>)) (users s1)\<rparr>
         else s1)"

text \<open>Leaving one channel on the way out; \<open>seen\<close> collects who is to be told.\<close>

definition quit_channel :: "uid \<Rightarrow> string \<Rightarrow> uid list \<times> server \<Rightarrow> uid list \<times> server" where
  "quit_channel uid key st =
     (case st of (seen, s) \<Rightarrow>
        case map_of (channels s) key of
          None \<Rightarrow> st
        | Some ch \<Rightarrow>
            let rest = AList.delete uid (members ch);
                s1 = update_chan key (\<lambda>c. c\<lparr>members := AList.delete uid (members c)\<rparr>) s
            in (if is_hidden s uid key then seen else fold List.insert (map fst rest) seen, s1))"

definition quit_channels :: "uid \<Rightarrow> user \<Rightarrow> string \<Rightarrow> server \<Rightarrow> server" where
  "quit_channels uid u reason s =
     (case fold (quit_channel uid) (joined_chans u) ([], s) of (seen, s1) \<Rightarrow>
        let line = '':'' @ user_prefix u @ '' QUIT :'' @ reason;
            s2 = fold (\<lambda>m. send m line) seen s1;
            s3 = fold (\<lambda>key. update_chan key (\<lambda>c. c\<lparr>invites := set_remove uid (invites c)\<rparr>)) (invited u) s2
        in watch_notify_offline (nick u) (reap s3))"

definition drop_indexes :: "uid \<Rightarrow> user \<Rightarrow> server \<Rightarrow> server" where
  "drop_indexes uid u s =
     s\<lparr>accepted_nicks := fold count_dec (accept u) (accepted_nicks s),
       watch_by := fold (\<lambda>n. index_remove n uid) (watch u) (watch_by s),
       monitor_by := fold (\<lambda>n. index_remove n uid) (monitor u) (monitor_by s),
       uuid_local := AList.delete (uuid u) (uuid_local s)\<rparr>"

definition free_nick :: "user \<Rightarrow> server \<Rightarrow> server" where
  "free_nick u s =
     (if nick u \<noteq> [] then
        let low = to_ascii_lowercase (nick u) in scrub_accepts low (s\<lparr>nick_index := AList.delete low (nick_index s)\<rparr>)
      else s)"

definition remove_user :: "uid \<Rightarrow> string \<Rightarrow> server \<Rightarrow> server" where
  "remove_user uid reason s =
     (case map_of (users s) uid of
        None \<Rightarrow> s
      | Some u \<Rightarrow>
          let s1 = count_disconnect (ip u) (conn_class u) (s\<lparr>users := AList.delete uid (users s)\<rparr>);
              s2 = (if \<not> registered u then note_removed_unreg s1 else publish_event [''quit'', nick u, reason] s1);
              s3 = drop_indexes uid u s2;
              s4 = (if registered u then
                      propagate ('':'' @ uuid u @ '' QUIT :'' @ reason) None
                        (push_whowas (nick u) (ident u) (host_display u) (realname u) (account u) s3)
                    else s3);
              s5 = free_nick u s4
          in if registered u then quit_channels uid u reason s5 else s5)"

section \<open>Changing nick\<close>

text \<open>The ACCEPT lists follow a rename, with the count of acceptances.\<close>

definition rename_accepts :: "string \<Rightarrow> string \<Rightarrow> server \<Rightarrow> server" where
  "rename_accepts oldlow newlow s =
     (let s1 = s\<lparr>users := map (\<lambda>(i, u). (i, u\<lparr>accept := map (\<lambda>n. if n = oldlow then newlow else n) (accept u)\<rparr>)) (users s)\<rparr>
      in case map_of (accepted_nicks s1) oldlow of
           None \<Rightarrow> s1
         | Some c \<Rightarrow>
             let m = AList.delete oldlow (accepted_nicks s1)
             in s1\<lparr>accepted_nicks := AList.update newlow (count_get m newlow + c) m\<rparr>)"

definition nick_audience :: "uid \<Rightarrow> string \<Rightarrow> string \<Rightarrow> uid list \<times> server \<Rightarrow> uid list \<times> server" where
  "nick_audience uid line key st =
     (case st of (targets, s) \<Rightarrow>
        let s1 = record_event key line s in
        case map_of (channels s1) key of
          None \<Rightarrow> (targets, s1)
        | Some ch \<Rightarrow>
            (if is_hidden s1 uid key then targets else fold List.insert (map fst (members ch)) targets, s1))"

definition set_nick_core :: "uid \<Rightarrow> user \<Rightarrow> string \<Rightarrow> server \<Rightarrow> server" where
  "set_nick_core uid u newnick s =
     (let old = nick u;
          s1 = (if registered u then push_whowas old (ident u) (host_display u) (realname u) (account u) s else s);
          s2 = s1\<lparr>nick_index := AList.update (to_ascii_lowercase newnick) uid
                    (if old \<noteq> [] then AList.delete (to_ascii_lowercase old) (nick_index s1) else nick_index s1)\<rparr>;
          s3 = update_user uid (\<lambda>u. u\<lparr>nick := newnick, nick_ts := clock s\<rparr>) s2;
          oldlow = to_ascii_lowercase old; newlow = to_ascii_lowercase newnick
      in if old \<noteq> [] \<and> oldlow \<noteq> newlow then rename_accepts oldlow newlow s3 else s3)"

definition set_nick_tell :: "env \<Rightarrow> uid \<Rightarrow> user \<Rightarrow> string \<Rightarrow> server \<Rightarrow> server" where
  "set_nick_tell E uid u newnick s =
     (let line = '':'' @ user_prefix u @ '' NICK :'' @ newnick in
      case fold (nick_audience uid line) (joined_chans u) ([uid], s) of (targets, s1) \<Rightarrow>
        let s2 = fold (\<lambda>t. send t line) targets s1;
            s3 = (if conf_bool s2 ''seenicks'' False then
                    snotice_c E ''n'' (trf (catalog_of s2) ''{0} is now known as {1}'' [nick u, newnick]) s2
                  else s2)
        in publish_event [''nick'', nick u, newnick]
             (watch_notify_online newnick (watch_notify_offline (nick u) s3)))"

definition set_nick :: "env \<Rightarrow> uid \<Rightarrow> string \<Rightarrow> server \<Rightarrow> server" where
  "set_nick E uid newnick s =
     (case map_of (users s) uid of
        None \<Rightarrow> s
      | Some u \<Rightarrow>
          let s1 = set_nick_core uid u newnick s;
              s2 = (if registered u then set_nick_tell E uid u newnick s1 else s1)
          in propagate_nick uid newnick s2)"

end
