(* ===== verification/Duration.thy ===== *)
theory Duration
  imports Civil
begin

text \<open>
  Durations of \<open>src/xline.rs\<close>: \<open>parse_duration\<close>, \<open>short_duration\<close> and \<open>human_duration\<close>.  X-lines, timed
  bans and the \<open>+H\<close> channel mode share them.  A \<open>u64\<close> is a \<^typ>\<open>nat\<close> below \<open>2 ^ 64\<close>;
  \<open>saturating_add\<close> and \<open>saturating_mul\<close> stop at its largest value.
\<close>

definition u64_max :: nat where
  "u64_max = 2 ^ 64 - 1"

definition sat_add :: "nat \<Rightarrow> nat \<Rightarrow> nat" where
  "sat_add a b = min (a + b) u64_max"

definition sat_mul :: "nat \<Rightarrow> nat \<Rightarrow> nat" where
  "sat_mul a b = min (a * b) u64_max"

definition is_digit_char :: "uchar \<Rightarrow> bool" where
  "is_digit_char c \<longleftrightarrow> (case c of [b] \<Rightarrow> is_ascii_digit b | _ \<Rightarrow> False)"

definition unit_size :: "uchar \<Rightarrow> nat option" where
  "unit_size c = map_of [(''s'', 1), (''m'', 60), (''h'', 3600), (''d'', 86400), (''w'', 604800)] c"

definition parse_duration :: "string \<Rightarrow> nat option" where
  "parse_duration s =
     (if s = [] \<or> s = ''0'' then Some 0
      else let c = last (utf8_chars s) in
        if is_digit_char c then parse_uint 64 s
        else case parse_uint 64 (take (length s - length c) s) of
               None \<Rightarrow> None
             | Some n \<Rightarrow> map_option (sat_mul n) (unit_size c))"

definition short_units :: "(nat \<times> string) list" where
  "short_units = [(604800, ''w''), (86400, ''d''), (3600, ''h''), (60, ''m'')]"

definition short_duration :: "nat \<Rightarrow> string" where
  "short_duration secs =
     (if secs = 0 then ''0''
      else case find (\<lambda>(sz, _). secs mod sz = 0) short_units of
             Some (sz, u) \<Rightarrow> show_nat (secs div sz) @ u
           | None \<Rightarrow> show_nat secs)"

definition duration_units :: "(nat \<times> string) list" where
  "duration_units = [(604800, ''week''), (86400, ''day''), (3600, ''hour''), (60, ''minute''), (1, ''second'')]"

fun duration_parts :: "nat \<Rightarrow> (nat \<times> string) list \<Rightarrow> string list" where
  "duration_parts secs [] = []"
| "duration_parts secs ((sz, label) # us) =
     (let n = secs div sz in
      if n > 0 then (show_nat n @ '' '' @ label @ (if n = 1 then [] else ''s'')) # duration_parts (secs - n * sz) us
      else duration_parts secs us)"

definition human_duration :: "nat \<Rightarrow> string" where
  "human_duration secs =
     (if secs = 0 then ''0 seconds'' else join_with '' '' (duration_parts secs duration_units))"

section \<open>Short durations are read back\<close>

lemma digit_lt_128: "is_ascii_digit c \<Longrightarrow> byte_of c < 128"
  by (simp add: is_ascii_digit_def)

lemma is_ascii_show_nat [simp]: "is_ascii (show_nat n)"
  using show_nat_digits [of n] by (auto simp: is_ascii_def list_all_iff digit_lt_128)

lemma is_ascii_append [simp]: "is_ascii (a @ b) \<longleftrightarrow> is_ascii a \<and> is_ascii b"
  by (auto simp: is_ascii_def)

lemma last_utf8_ascii: "is_ascii s \<Longrightarrow> s \<noteq> [] \<Longrightarrow> last (utf8_chars s) = [last s]"
  by (simp add: utf8_chars_ascii last_map)

lemma show_nat_last: "is_ascii_digit (last (show_nat n))"
  using show_nat_digits [of n] last_in_set [of "show_nat n"] by (auto simp: list_all_iff)

lemma show_nat_zero: "show_nat n = ''0'' \<Longrightarrow> n = 0"
  using digits_val_show_nat [of n] by (simp add: digits_val_def digit_val_def)

lemma parse_duration_show: "n < 2 ^ 64 \<Longrightarrow> parse_duration (show_nat n) = Some n"
  using show_nat_zero [of n]
  by (auto simp: parse_duration_def Let_def last_utf8_ascii is_digit_char_def show_nat_last)

lemma parse_duration_unit:
  assumes u: "(sz, [c]) \<in> set short_units" and n: "n < 2 ^ 64"
  shows "parse_duration (show_nat n @ [c]) = Some (sat_mul n sz)"
proof -
  have c: "is_ascii [c]" "\<not> is_ascii_digit c" "unit_size [c] = Some sz"
    using u by (auto simp: short_units_def is_ascii_def is_ascii_digit_def unit_size_def)
  have "show_nat n @ [c] \<noteq> ''0''" by (metis append_eq_Cons_conv append_is_Nil_conv list.distinct(1) show_nat_neq_Nil)
  then show ?thesis using c n
    by (simp add: parse_duration_def Let_def last_utf8_ascii is_digit_char_def)
qed

lemma parse_short_duration:
  assumes "n < 2 ^ 64"
  shows "parse_duration (short_duration n) = Some n"
proof (cases "find (\<lambda>(sz, _). n mod sz = 0) short_units")
  case None
  then show ?thesis using assms by (simp add: short_duration_def parse_duration_show parse_duration_def [of "''0''"])
next
  case (Some p)
  obtain sz u where p: "p = (sz, u)" by (cases p)
  have mem: "(sz, u) \<in> set short_units" and d: "n mod sz = 0"
    using Some p by (auto simp: find_Some_iff in_set_conv_nth)
  then obtain c where u: "u = [c]" by (auto simp: short_units_def)
  have "n div sz * sz = n" using d by auto
  moreover have "n div sz < 2 ^ 64" using assms div_le_dividend le_less_trans by blast
  ultimately have "parse_duration (show_nat (n div sz) @ u) = Some n"
    using parse_duration_unit [OF mem [unfolded u], of "n div sz"] assms unfolding u sat_mul_def u64_max_def by simp
  then show ?thesis using Some p by (simp add: short_duration_def parse_duration_def [of "''0''"])
qed

lemma parse_duration_bound: "parse_duration s = Some n \<Longrightarrow> n < 2 ^ 64"
  using parse_uint_bound [of 64 s n]
  by (auto simp: parse_duration_def Let_def sat_mul_def u64_max_def split: if_splits option.splits)

section \<open>The human form names the whole duration\<close>

text \<open>What the parts of \<open>human_duration\<close> add up to, and that each is written once, in decreasing
  order, with its plural.\<close>

fun parts_of :: "nat \<Rightarrow> (nat \<times> string) list \<Rightarrow> (nat \<times> nat \<times> string) list" where
  "parts_of secs [] = []"
| "parts_of secs ((sz, label) # us) =
     (if secs div sz > 0 then (secs div sz, sz, label) # parts_of (secs mod sz) us else parts_of secs us)"

lemma duration_parts_eq:
  "duration_parts secs us = map (\<lambda>(n, _, label). show_nat n @ '' '' @ label @ (if n = 1 then [] else ''s'')) (parts_of secs us)"
  by (induction secs us rule: parts_of.induct) (simp_all add: Let_def minus_div_mult_eq_mod [symmetric] mult.commute)

lemma parts_of_sum:
  "us \<noteq> [] \<Longrightarrow> fst (last us) = 1 \<Longrightarrow> sum_list (map (\<lambda>(n, sz, _). n * sz) (parts_of secs us)) = secs"
proof (induction secs us rule: parts_of.induct)
  case (2 secs sz label us)
  show ?case
  proof (cases "us = []")
    case True
    then show ?thesis using "2.prems" by simp
  next
    case False
    then show ?thesis using 2 by (cases "secs div sz > 0") (simp_all add: div_mult_mod_eq)
  qed
qed simp

end
