(* ===== verification/Command.thy ===== *)
theory Command
  imports Users Duration
begin

text \<open>
  What command handlers share: the outcome of a handler (\<open>src/command.rs\<close>), the operator gate
  (\<open>src/coremods/core_oper.rs\<close>) and the persistence layer of \<open>src/database/mod.rs\<close> and
  \<open>Server::disk_write\<close>.  A write is handed to another thread: here it is left in \<open>sql_queue\<close> or
  \<open>disk_pending\<close>.  What a database or a file answers to a read is an argument of the reader.
\<close>

datatype cmd_result = CmdOk | CmdFail

definition ERR_NOPRIVILEGES :: nat where "ERR_NOPRIVILEGES = 481"

definition require_oper :: "uid \<Rightarrow> server \<Rightarrow> bool \<times> server" where
  "require_oper uid s =
     (if is_oper s uid then (True, s)
      else (False, numeric uid ERR_NOPRIVILEGES ('':Permission Denied- You'' @ [CHR 0x27] @ ''re not an IRC operator'') s))"

section \<open>Persistence\<close>

text \<open>\<open>(n as i64).to_string()\<close>: the upper half of the unsigned range turns negative.\<close>

definition show_i64 :: "nat \<Rightarrow> string" where
  "show_i64 n = show_int (if n < 2 ^ 63 then int n else int n - 2 ^ 64)"

definition disk_write :: "string \<Rightarrow> string \<Rightarrow> server \<Rightarrow> server" where
  "disk_write path contents s = s\<lparr>disk_pending := AList.update path contents (disk_pending s)\<rparr>"

text \<open>A request with a coalescing key takes the place of the pending one with that key; otherwise it is
  appended unless the queue is full.\<close>

definition submit :: "sql_request \<Rightarrow> nat \<Rightarrow> sql_request list \<Rightarrow> bool \<times> sql_request list" where
  "submit req max' q =
     (case (case rq_coalesce req of None \<Rightarrow> None | Some k \<Rightarrow> position (\<lambda>r. rq_coalesce r = Some k) q) of
        Some i \<Rightarrow> (True, q[i := req])
      | None \<Rightarrow> if length q \<ge> max' then (False, q) else (True, q @ [req]))"

definition stores_in_db :: "server \<Rightarrow> bool" where
  "stores_in_db s \<longleftrightarrow> sql_on s
     \<and> (case conf s ''store_backend'' of
          Some v \<Rightarrow> eq_ignore_ascii_case v ''pgsql'' \<or> eq_ignore_ascii_case v ''postgres''
        | None \<Rightarrow> False)"

definition store_upsert :: string where
  "store_upsert = ''INSERT INTO echoircd_store (name, content, updated) VALUES ($1, $2, $3) ''
     @ ''ON CONFLICT (name) DO UPDATE SET content = EXCLUDED.content, updated = EXCLUDED.updated''"

definition store_save :: "string \<Rightarrow> string \<Rightarrow> server \<Rightarrow> server" where
  "store_save name content s =
     (case sql_primary s of
        None \<Rightarrow> s
      | Some max' \<Rightarrow>
          s\<lparr>sql_queue := snd (submit \<lparr>rq_id = 0, rq_sql = store_upsert,
               rq_params = [Some name, Some content, Some (show_i64 (clock s))],
               rq_coalesce = Some name, rq_batch = []\<rparr> max' (sql_queue s))\<rparr>)"

definition store_rows_replace :: "string \<Rightarrow> string \<Rightarrow> string option list list \<Rightarrow> server \<Rightarrow> server" where
  "store_rows_replace table insert_sql rows s =
     (case sql_primary s of
        None \<Rightarrow> s
      | Some max' \<Rightarrow>
          s\<lparr>sql_queue := snd (submit \<lparr>rq_id = 0, rq_sql = [], rq_params = [],
               rq_coalesce = Some (''rows:'' @ table),
               rq_batch = (''DELETE FROM '' @ table, []) # map (\<lambda>row. (insert_sql, row)) rows\<rparr> max' (sql_queue s))\<rparr>)"

definition persist_save :: "string \<Rightarrow> string \<Rightarrow> string \<Rightarrow> server \<Rightarrow> server" where
  "persist_save name path content s =
     (if stores_in_db s then store_save name content s else disk_write path content s)"

text \<open>\<open>file\<close> is what reading the flat file gives; \<open>answer\<close> is what the database answers to the query for
  the stored text: \<open>None\<close> when it cannot be reached, \<open>Some None\<close> when it has no such row.  The row that is
  then written is the database's own, not part of this state.\<close>

definition store_load_or_seed :: "server \<Rightarrow> string option \<Rightarrow> string option option \<Rightarrow> string option" where
  "store_load_or_seed s fallback answer =
     (if \<not> stores_in_db s then fallback
      else case answer of
             Some (Some content) \<Rightarrow> Some content
           | _ \<Rightarrow> fallback)"

definition persist_load :: "server \<Rightarrow> string option \<Rightarrow> string option option \<Rightarrow> string option" where
  "persist_load s file answer = store_load_or_seed s file answer"

definition store_rows_load :: "server \<Rightarrow> string option list list option \<Rightarrow> string option list list option" where
  "store_rows_load s answer = (if stores_in_db s then answer else None)"

section \<open>Frames\<close>

lemma core_require_oper [simp]: "core (snd (require_oper uid s)) = core s"
  by (simp add: require_oper_def)

interpretation disk_write: output_op "disk_write path t" for path t
  by unfold_locales (simp add: disk_write_def)

interpretation store_save: output_op "store_save name t" for name t
  by unfold_locales (simp add: store_save_def split: option.split)

interpretation store_rows: output_op "store_rows_replace table ins rows" for table ins rows
  by unfold_locales (simp add: store_rows_replace_def split: option.split)

interpretation persist_save: output_op "persist_save name path t" for name path t
  by unfold_locales (simp add: persist_save_def)

section \<open>The request queue\<close>

text \<open>At most one pending write per coalescing key, and never more requests than the bound allows.\<close>

definition coalesced :: "sql_request list \<Rightarrow> bool" where
  "coalesced q \<longleftrightarrow> distinct (filter (\<lambda>k. k \<noteq> None) (map rq_coalesce q))"

lemma submit_length: "length q \<le> max' \<Longrightarrow> length (snd (submit req max' q)) \<le> max'"
  by (simp add: submit_def split: option.split)

lemma submit_coalesced:
  assumes "coalesced q"
  shows "coalesced (snd (submit req max' q))"
proof (cases "case rq_coalesce req of None \<Rightarrow> None | Some k \<Rightarrow> position (\<lambda>r. rq_coalesce r = Some k) q")
  case None
  then have "rq_coalesce req = None \<or> (\<forall>r \<in> set q. rq_coalesce r \<noteq> rq_coalesce req)"
    by (auto split: option.splits simp: position_None_iff)
  then show ?thesis using assms None by (force simp: submit_def coalesced_def)
next
  case (Some i)
  then obtain k where "rq_coalesce req = Some k" "position (\<lambda>r. rq_coalesce r = Some k) q = Some i"
    by (auto split: option.splits)
  then have "i < length q" "rq_coalesce (q ! i) = rq_coalesce req" using position_SomeD by fastforce+
  then have "map rq_coalesce (q[i := req]) = map rq_coalesce q"
    by (metis list_update_id map_update)
  then show ?thesis using assms Some by (simp add: submit_def coalesced_def)
qed

lemma submit_newest:
  assumes "rq_coalesce req = Some k" "fst (submit req max' q)"
  shows "req \<in> set (snd (submit req max' q))"
  using assms position_SomeD [of _ q]
  by (fastforce simp: submit_def set_update_memI split: option.splits if_splits)

end
