(* ===== verification/Message.thy ===== *)
theory Message
  imports Prelude
begin

text \<open>
  The line parser and serialiser of \<open>src/message.rs\<close>: one wire line in, an optional
  \<open>message\<close> out, and back.  The record keeps the fields of the Rust struct; the tag loop,
  the parameter loop and the body of \<open>parse\<close> are one definition each.  The theorems at the
  end show what a parsed line looks like, what is kept of its tags, and that serialising a
  parsed line and parsing it again gives the same source, command and parameters.
\<close>

section \<open>Data\<close>

record message =
  source :: "string option"
  cmd_name :: string
  params :: "string list"
  ctags :: string
  label_tag :: "string option"
  batch_tag :: "string option"
  concat_tag :: bool

record tag_scan =
  scan_ctags :: string
  scan_label :: "string option"
  scan_batch :: "string option"
  scan_concat :: bool

abbreviation sp :: char where
  "sp \<equiv> CHR '' ''"

section \<open>Serialising\<close>

definition needs_colon :: "string \<Rightarrow> bool" where
  "needs_colon p \<longleftrightarrow> p = [] \<or> sp \<in> set p \<or> starts_with '':'' p"

fun wire_params :: "string list \<Rightarrow> string" where
  "wire_params [] = []"
| "wire_params [p] = sp # (if needs_colon p then '':'' else []) @ p"
| "wire_params (p # q # ps) = sp # p @ wire_params (q # ps)"

definition to_wire :: "message \<Rightarrow> string" where
  "to_wire m =
     (case source m of None \<Rightarrow> [] | Some src \<Rightarrow> '':'' @ src @ [sp])
     @ cmd_name m @ wire_params (params m)"

section \<open>Parsing\<close>

definition scan_tag :: "string \<Rightarrow> tag_scan \<Rightarrow> tag_scan" where
  "scan_tag t a =
     (if starts_with ''+'' t
      then a\<lparr>scan_ctags := (if scan_ctags a = [] then [] else scan_ctags a @ '';'') @ t\<rparr>
      else case strip_prefix ''label='' t of
        Some v \<Rightarrow> a\<lparr>scan_label := Some v\<rparr>
      | None \<Rightarrow>
          (case strip_prefix ''batch='' t of
             Some v \<Rightarrow> a\<lparr>scan_batch := Some v\<rparr>
           | None \<Rightarrow> if t = ''draft/multiline-concat'' then a\<lparr>scan_concat := True\<rparr> else a))"

definition no_tags :: tag_scan where
  "no_tags = \<lparr>scan_ctags = [], scan_label = None, scan_batch = None, scan_concat = False\<rparr>"

definition scan_tags :: "string \<Rightarrow> tag_scan" where
  "scan_tags tags = fold scan_tag (split_char (CHR '';'') tags) no_tags"

function parse_params :: "string \<Rightarrow> string list" where
  "parse_params rest =
     (if rest = [] then []
      else case strip_prefix '':'' rest of
        Some trailing \<Rightarrow> [trailing]
      | None \<Rightarrow>
          (case split_once sp rest of
             Some (p, r) \<Rightarrow> p # parse_params (trim_start_char sp r)
           | None \<Rightarrow> [rest]))"
  by pat_completeness auto
termination
proof (relation "measure length")
  fix rest :: string and x p r
  assume "split_once sp rest = Some x" "(p, r) = x"
  then have "rest = p @ sp # r"
    by (auto dest: split_once_SomeD)
  moreover have "length (trim_start_char sp r) \<le> length r"
    by (rule length_trim_start_char)
  ultimately show "(trim_start_char sp r, rest) \<in> measure length" by simp
qed simp

declare parse_params.simps [simp del]

definition parse_command :: "tag_scan \<Rightarrow> string option \<Rightarrow> string \<Rightarrow> message option" where
  "parse_command a src rest =
     (let (cmd, r) = (case split_once sp rest of
                        Some (c, r) \<Rightarrow> (c, trim_start_char sp r)
                      | None \<Rightarrow> (rest, []))
      in if cmd = [] then None
         else Some \<lparr>source = src, cmd_name = to_ascii_uppercase cmd, params = parse_params r,
                    ctags = scan_ctags a, label_tag = scan_label a, batch_tag = scan_batch a,
                    concat_tag = scan_concat a\<rparr>)"

definition parse_source :: "tag_scan \<Rightarrow> string \<Rightarrow> message option" where
  "parse_source a rest =
     (case strip_prefix '':'' rest of
        None \<Rightarrow> parse_command a None rest
      | Some after_colon \<Rightarrow>
          (case split_once sp after_colon of
             None \<Rightarrow> None
           | Some (src, r) \<Rightarrow> parse_command a (Some src) (trim_start_char sp r)))"

definition parse :: "string \<Rightarrow> message option" where
  "parse line =
     (let rest = trim_start_char sp line
      in case strip_prefix ''@'' rest of
           None \<Rightarrow> parse_source no_tags rest
         | Some after_at \<Rightarrow>
             (case split_once sp after_at of
                None \<Rightarrow> None
              | Some (tags, r) \<Rightarrow> parse_source (scan_tags tags) (trim_start_char sp r)))"

section \<open>The shape of a parsed message\<close>

text \<open>Middle parameters are non-empty, have no space and do not start with a colon; the last
  parameter is anything.\<close>

definition middle_ok :: "string \<Rightarrow> bool" where
  "middle_ok p \<longleftrightarrow> p \<noteq> [] \<and> sp \<notin> set p \<and> hd p \<noteq> CHR '':''"

definition wf_message :: "message \<Rightarrow> bool" where
  "wf_message m \<longleftrightarrow>
     cmd_name m \<noteq> [] \<and> sp \<notin> set (cmd_name m) \<and> to_ascii_uppercase (cmd_name m) = cmd_name m
     \<and> (\<forall>src. source m = Some src \<longrightarrow> sp \<notin> set src)
     \<and> (source m = None \<longrightarrow> hd (cmd_name m) \<noteq> CHR '':'')
     \<and> list_all middle_ok (butlast (params m))"

lemma not_letter_sp [simp]: "\<not> is_ascii_alphabetic sp"
  by (simp add: is_ascii_alphabetic_def is_ascii_upper_def is_ascii_lower_def)

lemma not_letter_colon [simp]: "\<not> is_ascii_alphabetic (CHR '':'')"
  by (simp add: is_ascii_alphabetic_def is_ascii_upper_def is_ascii_lower_def)

lemma not_letter_at [simp]: "\<not> is_ascii_alphabetic (CHR ''@'')"
  by (simp add: is_ascii_alphabetic_def is_ascii_upper_def is_ascii_lower_def)

lemma sp_in_uppercase [simp]: "sp \<in> set (to_ascii_uppercase s) \<longleftrightarrow> sp \<in> set s"
  by (auto simp: to_ascii_uppercase_def image_iff ascii_up_eq_nonletter eq_commute [of sp])

lemma to_ascii_uppercase_eq_Nil [simp]: "to_ascii_uppercase s = [] \<longleftrightarrow> s = []"
  by (simp add: to_ascii_uppercase_def)

lemma hd_uppercase:
  "s \<noteq> [] \<Longrightarrow> \<not> is_ascii_alphabetic d \<Longrightarrow> hd (to_ascii_uppercase s) = d \<longleftrightarrow> hd s = d"
  by (cases s) (simp_all add: to_ascii_uppercase_def ascii_up_eq_nonletter)

lemma parse_params_Nil [simp]: "parse_params [] = []"
  by (simp add: parse_params.simps)

lemma strip_colon: "strip_prefix '':'' s = (if s \<noteq> [] \<and> hd s = CHR '':'' then Some (tl s) else None)"
  by (cases s) auto

lemma parse_params_middle_ok:
  "rest = [] \<or> hd rest \<noteq> sp \<Longrightarrow> list_all middle_ok (butlast (parse_params rest))"
proof (induction rest rule: parse_params.induct)
  case (1 rest)
  show ?case
  proof (cases "rest = [] \<or> hd rest = CHR '':'' \<or> split_once sp rest = None")
    case True
    then show ?thesis
      by (subst parse_params.simps) (auto simp: strip_colon split: option.splits)
  next
    case False
    then obtain p r where pr: "split_once sp rest = Some (p, r)" by auto
    let ?r = "trim_start_char sp r"
    have eq: "parse_params rest = p # parse_params ?r"
      using False pr by (subst parse_params.simps) (simp add: strip_colon)
    have "rest = p @ sp # r" "sp \<notin> set p"
      using pr by (auto dest: split_once_SomeD)
    then have "middle_ok p"
      using False "1.prems" by (cases p) (auto simp: middle_ok_def)
    moreover have "list_all middle_ok (butlast (parse_params ?r))"
      using "1.IH" [OF _ _ pr refl] False hd_trim_start_char by (auto simp: strip_colon)
    ultimately show ?thesis using eq by simp
  qed
qed

lemma wire_params_eq:
  "list_all middle_ok (butlast ps) \<Longrightarrow> ps \<noteq> [] \<Longrightarrow>
   \<exists>body. wire_params ps = sp # body \<and> parse_params body = ps \<and> (body = [] \<or> hd body \<noteq> sp)"
proof (induction ps rule: induct_list012)
  case (2 p)
  show ?case
  proof (cases "needs_colon p")
    case True
    then show ?thesis by (auto simp: parse_params.simps [of "CHR '':'' # p"])
  next
    case False
    then have p: "p \<noteq> []" "sp \<notin> set p" "hd p \<noteq> CHR '':''"
      by (auto simp: needs_colon_def starts_with_def strip_colon)
    then have "parse_params p = [p]"
      by (subst parse_params.simps) (simp add: strip_colon split_once_None [THEN iffD2])
    moreover have "hd p \<noteq> sp"
      using p hd_in_set [of p] by metis
    ultimately show ?thesis using False by simp
  qed
next
  case (3 p q ps)
  then obtain body where body: "wire_params (q # ps) = sp # body" "parse_params body = q # ps"
      "body = [] \<or> hd body \<noteq> sp"
    by auto
  have p: "p \<noteq> []" "sp \<notin> set p" "hd p \<noteq> CHR '':''"
    using 3 by (auto simp: middle_ok_def)
  have "parse_params (p @ sp # body) = p # q # ps"
    using p body by (subst parse_params.simps) (simp add: strip_colon trim_start_char_id)
  moreover have "hd (p @ sp # body) \<noteq> sp"
    using p by (cases p) auto
  ultimately show ?case using body(1) by auto
qed simp

lemma parse_command_wire:
  assumes "c \<noteq> []" "sp \<notin> set c" "list_all middle_ok (butlast ps)"
  shows "parse_command a src (c @ wire_params ps) =
     Some \<lparr>source = src, cmd_name = to_ascii_uppercase c, params = ps, ctags = scan_ctags a,
           label_tag = scan_label a, batch_tag = scan_batch a, concat_tag = scan_concat a\<rparr>"
proof (cases "ps = []")
  case True
  with assms have "split_once sp (c @ wire_params ps) = None"
    by (simp add: split_once_None)
  with True assms show ?thesis by (simp add: parse_command_def)
next
  case False
  with assms(3) obtain body where "wire_params ps = sp # body" "parse_params body = ps"
      "body = [] \<or> hd body \<noteq> sp"
    using wire_params_eq by blast
  with assms show ?thesis by (simp add: parse_command_def trim_start_char_id)
qed

lemma parse_command_wf:
  assumes "parse_command a src rest = Some m" "rest = [] \<or> hd rest \<noteq> sp"
    and "src = None \<Longrightarrow> rest = [] \<or> hd rest \<noteq> CHR '':''"
    and "\<And>s. src = Some s \<Longrightarrow> sp \<notin> set s"
  shows "wf_message m"
proof -
  obtain c r where cr: "(case split_once sp rest of Some (c, r) \<Rightarrow> (c, trim_start_char sp r)
                          | None \<Rightarrow> (rest, [])) = (c, r)"
    by fastforce
  then have "c \<noteq> []" and m: "source m = src" "cmd_name m = to_ascii_uppercase c"
      "params m = parse_params r"
    using assms(1) by (auto simp: parse_command_def split: if_splits)
  have "sp \<notin> set c" and r: "r = [] \<or> hd r \<noteq> sp" and hd_c: "rest \<noteq> [] \<and> hd rest = hd c"
    using cr \<open>c \<noteq> []\<close> hd_trim_start_char
    by (auto simp: split_once_None dest!: split_once_SomeD split: option.splits)
  have "list_all middle_ok (butlast (params m))"
    using parse_params_middle_ok [OF r] m by simp
  then show ?thesis
    using m \<open>c \<noteq> []\<close> \<open>sp \<notin> set c\<close> hd_c assms(3,4) by (auto simp: wf_message_def hd_uppercase)
qed

lemma parse_source_wf:
  assumes "parse_source a rest = Some m" "rest = [] \<or> hd rest \<noteq> sp"
  shows "wf_message m"
proof (cases "strip_prefix '':'' rest")
  case None
  with assms show ?thesis
    by (auto simp: parse_source_def strip_colon split: if_splits intro: parse_command_wf)
next
  case (Some after)
  with assms obtain src r where *: "split_once sp after = Some (src, r)"
      "parse_command a (Some src) (trim_start_char sp r) = Some m"
    by (auto simp: parse_source_def split: option.splits)
  then have "sp \<notin> set src" by (auto dest: split_once_SomeD)
  with * show ?thesis
    using hd_trim_start_char by (auto intro: parse_command_wf)
qed

lemma parse_wf: "parse line = Some m \<Longrightarrow> wf_message m"
  unfolding parse_def Let_def
  by (auto split: option.splits prod.splits elim!: parse_source_wf dest: hd_trim_start_char)

section \<open>Theorems\<close>

definition untagged :: "message \<Rightarrow> message" where
  "untagged m = m\<lparr>ctags := [], label_tag := None, batch_tag := None, concat_tag := False\<rparr>"

lemma hd_append_neq [simp]: "xs \<noteq> [] \<Longrightarrow> hd (xs @ ys) = hd xs"
  by (cases xs) auto

lemma to_wire_parse:
  assumes "wf_message m" and "source m \<noteq> None \<or> hd (cmd_name m) \<noteq> CHR ''@''"
  shows "parse (to_wire m) = Some (untagged m)"
proof (cases "source m")
  case None
  let ?l = "cmd_name m @ wire_params (params m)"
  have c: "cmd_name m \<noteq> []" "sp \<notin> set (cmd_name m)" "list_all middle_ok (butlast (params m))"
      "hd (cmd_name m) \<noteq> CHR '':''" "hd (cmd_name m) \<noteq> CHR ''@''" "hd (cmd_name m) \<noteq> sp"
    using assms None hd_in_set [of "cmd_name m"] by (auto simp: wf_message_def simp del: hd_in_set)
  then have "trim_start_char sp ?l = ?l" "strip_prefix ''@'' ?l = None" "strip_prefix '':'' ?l = None"
    by (cases "cmd_name m"; simp)+
  with None c show ?thesis
    using assms(1) parse_command_wire [OF c(1,2,3)]
    by (auto simp: parse_def parse_source_def to_wire_def untagged_def no_tags_def wf_message_def)
next
  case (Some src)
  let ?l = "cmd_name m @ wire_params (params m)"
  have c: "cmd_name m \<noteq> []" "sp \<notin> set (cmd_name m)" "list_all middle_ok (butlast (params m))"
      "sp \<notin> set src" "hd (cmd_name m) \<noteq> sp"
    using assms Some hd_in_set [of "cmd_name m"] by (auto simp: wf_message_def simp del: hd_in_set)
  then have "trim_start_char sp ?l = ?l" by (simp add: trim_start_char_id)
  with Some c show ?thesis
    using assms(1) parse_command_wire [OF c(1,2,3)]
    by (auto simp: parse_def parse_source_def to_wire_def untagged_def no_tags_def wf_message_def)
qed

text \<open>Serialising never makes a line longer than the text it was parsed from, which separates a
  message from what its own serialisation parses to when the command starts with \<open>@\<close>.\<close>

lemma wire_params_length:
  "rest = [] \<or> hd rest \<noteq> sp \<Longrightarrow> rest \<noteq> [] \<Longrightarrow> length (wire_params (parse_params rest)) \<le> Suc (length rest)"
proof (induction rest rule: parse_params.induct)
  case (1 rest)
  show ?case
  proof (cases "hd rest = CHR '':''")
    case True
    with "1.prems" obtain t where "rest = CHR '':'' # t" by (cases rest) auto
    then show ?thesis by (subst parse_params.simps) simp
  next
    case colon: False
    show ?thesis
    proof (cases "split_once sp rest")
      case None
      then have "parse_params rest = [rest]"
        using colon "1.prems" by (subst parse_params.simps) (simp add: strip_colon)
      moreover have "\<not> needs_colon rest"
        using None colon "1.prems"
        by (simp add: needs_colon_def starts_with_def strip_colon split_once_None)
      ultimately show ?thesis by simp
    next
      case (Some pr)
      then obtain p r where pr: "split_once sp rest = Some (p, r)" by (cases pr) auto
      let ?r = "trim_start_char sp r"
      have eq: "parse_params rest = p # parse_params ?r"
        using colon pr "1.prems" by (subst parse_params.simps) (simp add: strip_colon)
      have rest: "rest = p @ sp # r" "sp \<notin> set p"
        using pr by (auto dest: split_once_SomeD)
      have "\<not> needs_colon p"
        using rest colon "1.prems" by (cases p) (auto simp: needs_colon_def starts_with_def)
      moreover have "?r \<noteq> [] \<Longrightarrow> length (wire_params (parse_params ?r)) \<le> Suc (length ?r)"
        using "1.IH" [OF _ _ pr refl] colon "1.prems" hd_trim_start_char by (auto simp: strip_colon)
      ultimately show ?thesis
        using eq rest length_trim_start_char [of sp r]
        by (cases "?r = []"; cases "parse_params ?r") auto
    qed
  qed
qed

lemma parse_command_length:
  assumes "parse_command a src rest = Some m"
  shows "length (cmd_name m @ wire_params (params m)) \<le> length rest"
proof (cases "split_once sp rest")
  case (Some cr)
  then obtain c r where cr: "split_once sp rest = Some (c, r)" by (cases cr) auto
  then have "rest = c @ sp # r" by (auto dest: split_once_SomeD)
  moreover have "length (wire_params (parse_params (trim_start_char sp r))) \<le> Suc (length r)"
    using wire_params_length [of "trim_start_char sp r"] hd_trim_start_char [of sp r]
      length_trim_start_char [of sp r]
    by (cases "trim_start_char sp r = []") auto
  ultimately show ?thesis
    using assms cr by (auto simp: parse_command_def split: if_splits)
qed (use assms in \<open>auto simp: parse_command_def split: if_splits\<close>)

lemma parse_source_length:
  assumes "parse_source a rest = Some m"
  shows "length (to_wire m) \<le> length rest"
proof (cases "strip_prefix '':'' rest")
  case None
  then have "parse_command a None rest = Some m" and "source m = None"
    using assms by (auto simp: parse_source_def parse_command_def Let_def split: prod.splits if_splits)
  then show ?thesis using parse_command_length [of a None rest m] by (simp add: to_wire_def)
next
  case (Some after)
  then obtain src r where *: "split_once sp after = Some (src, r)"
      "parse_command a (Some src) (trim_start_char sp r) = Some m"
    using assms by (auto simp: parse_source_def split: option.splits)
  then have "after = src @ sp # r" and "source m = Some src"
    by (auto simp: parse_command_def Let_def dest: split_once_SomeD split: prod.splits if_splits)
  with Some * show ?thesis
    using parse_command_length [OF *(2)] length_trim_start_char [of sp r]
    by (simp add: to_wire_def strip_prefix_Some_iff)
qed

lemma to_wire_untagged [simp]: "to_wire (untagged m) = to_wire m"
  by (simp add: to_wire_def untagged_def)

lemma at_command_lost:
  assumes "wf_message m" "source m = None" "hd (cmd_name m) = CHR ''@''"
  shows "parse (to_wire m) \<noteq> Some (untagged m)"
proof
  assume eq: "parse (to_wire m) = Some (untagged m)"
  obtain c where w: "to_wire m = CHR ''@'' # c"
    using assms by (cases "cmd_name m") (auto simp: to_wire_def wf_message_def)
  then obtain tags r where *: "split_once sp c = Some (tags, r)"
      "parse_source (scan_tags tags) (trim_start_char sp r) = Some (untagged m)"
    using eq by (auto simp: parse_def Let_def split: option.splits)
  then have "length (to_wire m) \<le> length r"
    using parse_source_length [OF *(2)] length_trim_start_char [of sp r] by simp
  moreover have "length r < length (to_wire m)"
    using *(1) w by (auto dest: split_once_SomeD)
  ultimately show False by simp
qed

text \<open>C18: Round trip.  Take any line the parser accepts, serialise the message with \<open>to_wire\<close> and
  parse it again: source, command and parameters come back unchanged (the tags are dropped by
  design), exactly when the message has a source or its command does not start with \<open>@\<close>.  The
  exception is a tagged line whose command token itself starts with \<open>@\<close>: serialised without its
  tags, that command is read as a tag block.\<close>

theorem parse_roundtrip:
  assumes "parse line = Some m"
  shows "parse (to_wire m) = Some (untagged m) \<longleftrightarrow>
           source m \<noteq> None \<or> hd (cmd_name m) \<noteq> CHR ''@''"
  using to_wire_parse at_command_lost parse_wf [OF assms] by blast

theorem parse_roundtrip_witness:
  "parse ''@a=1;+t :n!u@h privmsg #c :hi you'' =
     Some \<lparr>source = Some ''n!u@h'', cmd_name = ''PRIVMSG'', params = [''#c'', ''hi you''],
           ctags = ''+t'', label_tag = None, batch_tag = None, concat_tag = False\<rparr>
   \<and> parse '':n!u@h PRIVMSG #c :hi you'' =
     Some \<lparr>source = Some ''n!u@h'', cmd_name = ''PRIVMSG'', params = [''#c'', ''hi you''],
           ctags = [], label_tag = None, batch_tag = None, concat_tag = False\<rparr>"
proof -
  let ?m = "\<lparr>source = Some ''n!u@h'', cmd_name = ''PRIVMSG'', params = [''#c'', ''hi you''],
           ctags = ''+t'', label_tag = None, batch_tag = None, concat_tag = False\<rparr>"
  have p: "parse ''@a=1;+t :n!u@h privmsg #c :hi you'' = Some ?m" by code_simp
  have w: "to_wire ?m = '':n!u@h PRIVMSG #c :hi you''" by code_simp
  from parse_roundtrip [OF p] p show ?thesis by (simp add: w untagged_def)
qed

subsection \<open>What is kept of the tags\<close>

lemma join_with_merge: "join_with s ((a @ s @ b) # ws) = join_with s (a # b # ws)"
  by (cases ws) auto

lemma scan_tag_fields:
  "scan_ctags (scan_tag t a) =
     (if starts_with ''+'' t
      then (if scan_ctags a = [] then [] else scan_ctags a @ '';'') @ t else scan_ctags a)"
  "scan_label (scan_tag t a) =
     (case strip_prefix ''label='' t of None \<Rightarrow> scan_label a | Some v \<Rightarrow> Some v)"
  by (cases t; auto simp: scan_tag_def starts_with_def split: option.splits)+

lemma scan_ctags_fold:
  "scan_ctags (fold scan_tag ts a) =
     join_with '';'' ((if scan_ctags a = [] then [] else [scan_ctags a]) @ filter (starts_with ''+'') ts)"
proof (induction ts arbitrary: a)
  case (Cons t ts)
  have "starts_with ''+'' t \<Longrightarrow> t \<noteq> []" by (auto simp: starts_with_def)
  then show ?case
    using join_with_merge [of "'';''"] by (simp add: Cons.IH scan_tag_fields)
qed simp

definition last_some :: "'a option list \<Rightarrow> 'a option" where
  "last_some xs = foldl (\<lambda>a x. case x of None \<Rightarrow> a | Some v \<Rightarrow> Some v) None xs"

lemma scan_label_fold:
  "scan_label (fold scan_tag ts a) =
     foldl (\<lambda>a x. case x of None \<Rightarrow> a | Some v \<Rightarrow> Some v) (scan_label a)
       (map (strip_prefix ''label='') ts)"
  by (induction ts arbitrary: a) (simp_all add: scan_tag_fields)

lemma parse_command_tags:
  "parse_command a src rest = Some m \<Longrightarrow>
     ctags m = scan_ctags a \<and> label_tag m = scan_label a \<and> batch_tag m = scan_batch a
     \<and> concat_tag m = scan_concat a"
  by (auto simp: parse_command_def Let_def split: prod.splits if_splits)

lemma parse_source_tags:
  "parse_source a rest = Some m \<Longrightarrow>
     ctags m = scan_ctags a \<and> label_tag m = scan_label a \<and> batch_tag m = scan_batch a
     \<and> concat_tag m = scan_concat a"
  by (auto simp: parse_source_def split: option.splits dest: parse_command_tags)



section \<open>Lines with a trailing parameter\<close>

text \<open>What a server line \<open>:source COMMAND p1 ... pn :text\<close> is parsed to.\<close>

definition server_line :: "string \<Rightarrow> string \<Rightarrow> string list \<Rightarrow> string \<Rightarrow> string" where
  "server_line src c ps t = '':'' @ src @ [sp] @ c @ [sp] @ concat (map (\<lambda>p. p @ [sp]) ps) @ '':'' @ t"

lemma parse_params_trailing:
  "list_all middle_ok ps \<Longrightarrow> parse_params (concat (map (\<lambda>p. p @ [sp]) ps) @ '':'' @ t) = ps @ [t]"
proof (induction ps)
  case Nil
  then show ?case by (simp add: parse_params.simps)
next
  case (Cons p ps)
  let ?r = "concat (map (\<lambda>p. p @ [sp]) ps) @ '':'' @ t"
  have p: "p \<noteq> []" "sp \<notin> set p" "hd p \<noteq> CHR '':''" using Cons.prems by (auto simp: middle_ok_def)
  have "hd ?r \<noteq> sp" using Cons.prems by (cases ps) (auto simp: middle_ok_def hd_append dest: hd_in_set)
  then have "trim_start_char sp ?r = ?r" by (intro trim_start_char_id) blast
  then show ?case using p Cons
    by (subst parse_params.simps) (simp add: strip_colon)
qed

lemma parse_server_line:
  assumes "sp \<notin> set src" "c \<noteq> []" "sp \<notin> set c" "list_all middle_ok ps"
  shows "parse (server_line src c ps t) = Some \<lparr>source = Some src, cmd_name = to_ascii_uppercase c, params = ps @ [t],
    ctags = [], label_tag = None, batch_tag = None, concat_tag = False\<rparr>"
proof -
  let ?r = "concat (map (\<lambda>p. p @ [sp]) ps) @ '':'' @ t"
  have "hd ?r \<noteq> sp" using assms(4) by (cases ps) (auto simp: middle_ok_def hd_append dest: hd_in_set)
  then have r: "trim_start_char sp ?r = ?r" by (intro trim_start_char_id) blast
  have "hd (c @ sp # ?r) \<noteq> sp" using assms(2,3) by (cases c) auto
  then have c: "trim_start_char sp (c @ sp # ?r) = c @ sp # ?r" by (intro trim_start_char_id) blast
  show ?thesis
    using assms r c parse_params_trailing [OF assms(4), of t]
    by (simp add: parse_def parse_source_def parse_command_def server_line_def no_tags_def)
qed

end
