(* ===== verification/Regex.thy ===== *)
theory Regex
  imports Prelude
begin

text \<open>
  The regular-expression engine of \<open>src/regex.rs\<close>: a recursive-descent parser, a compiler to a
  program of a small virtual machine, and a matcher that runs all threads of the program in step.
  A panic of the source (an index out of range) is the value \<open>None\<close> of the matcher.
\<close>

section \<open>Patterns and programs\<close>

text \<open>The code point of a character given as its UTF-8 bytes.\<close>

fun code_point :: "uchar \<Rightarrow> nat" where
  "code_point [a, b] = (byte_of a mod 32) * 64 + byte_of b mod 64"
| "code_point [a, b, c] = ((byte_of a mod 16) * 64 + byte_of b mod 64) * 64 + byte_of c mod 64"
| "code_point [a, b, c, d] =
     (((byte_of a mod 8) * 64 + byte_of b mod 64) * 64 + byte_of c mod 64) * 64 + byte_of d mod 64"
| "code_point (a # cs) = byte_of a"
| "code_point [] = 0"

definition on_ascii :: "(char \<Rightarrow> bool) \<Rightarrow> uchar \<Rightarrow> bool" where
  "on_ascii P c = (case c of [b] \<Rightarrow> P b | _ \<Rightarrow> False)"

text \<open>\<open>char::is_ascii_whitespace\<close>: space, tab, line feed, form feed, carriage return.\<close>

definition is_ascii_whitespace :: "char \<Rightarrow> bool" where
  "is_ascii_whitespace c \<longleftrightarrow> byte_of c \<in> {9, 10, 12, 13, 32}"

datatype class_item = Range uchar uchar | Digit | NotDigit | Word | NotWord | Space | NotSpace

fun item_matches :: "class_item \<Rightarrow> uchar \<Rightarrow> bool" where
  "item_matches (Range lo hi) c = (code_point lo \<le> code_point c \<and> code_point c \<le> code_point hi)"
| "item_matches Digit c = on_ascii is_ascii_digit c"
| "item_matches NotDigit c = (\<not> on_ascii is_ascii_digit c)"
| "item_matches Word c = on_ascii (\<lambda>b. is_ascii_alphanumeric b \<or> b = CHR ''_'') c"
| "item_matches NotWord c = (\<not> on_ascii (\<lambda>b. is_ascii_alphanumeric b \<or> b = CHR ''_'') c)"
| "item_matches Space c = on_ascii is_ascii_whitespace c"
| "item_matches NotSpace c = (\<not> on_ascii is_ascii_whitespace c)"

datatype ast = AEmpty | AChar uchar | AAny | AClass "class_item list" bool | AStart | AEnd
  | AConcat "ast list" | AAlt "ast list" | AStar ast | APlus ast | AQuest ast | ARepeat ast nat "nat option"

datatype inst = IChar uchar | IAny | IClass "class_item list" bool | ISplit nat nat | IJmp nat | IStart | IEnd
  | IMatch | IMatchN nat

definition MAX_DEPTH :: nat where "MAX_DEPTH = 200"
definition MAX_REPEAT :: nat where "MAX_REPEAT = 1000"
definition MAX_PROG :: nat where "MAX_PROG = 200000"

definition newline :: uchar where "newline = [CHR 0x0A]"

definition class_hit :: "class_item list \<Rightarrow> bool \<Rightarrow> uchar \<Rightarrow> bool" where
  "class_hit items negated c = (list_ex (\<lambda>it. item_matches it c) items \<noteq> negated)"

section \<open>The compiler\<close>

text \<open>A program fragment is emitted at the end of the program so far.  Every call of \<open>compile\<close> checks
  the size cap on the way in and on the way out.\<close>

type_synonym emitter = "inst list \<Rightarrow> string + inst list"

definition checked :: "emitter \<Rightarrow> emitter" where
  "checked f prog =
     (if length prog > MAX_PROG then Inl ''pattern too large''
      else case f prog of
             Inl e \<Rightarrow> Inl e
           | Inr prog' \<Rightarrow> if length prog' > MAX_PROG then Inl ''pattern too large'' else Inr prog')"

definition emit :: "inst \<Rightarrow> emitter" where
  "emit i prog = Inr (prog @ [i])"

fun emit_seq :: "emitter list \<Rightarrow> emitter" where
  "emit_seq [] prog = Inr prog"
| "emit_seq (f # fs) prog = (case f prog of Inl e \<Rightarrow> Inl e | Inr prog' \<Rightarrow> emit_seq fs prog')"

fun alt_loop :: "emitter list \<Rightarrow> inst list \<Rightarrow> nat list \<Rightarrow> string + inst list \<times> nat list" where
  "alt_loop [] prog jmps = Inr (prog, jmps)"
| "alt_loop [f] prog jmps = (case f prog of Inl e \<Rightarrow> Inl e | Inr prog' \<Rightarrow> Inr (prog', jmps))"
| "alt_loop (f # g # fs) prog jmps =
     (let split = length prog;
          prog1 = prog @ [ISplit 0 0];
          l1 = length prog1
      in case f prog1 of
           Inl e \<Rightarrow> Inl e
         | Inr prog2 \<Rightarrow>
             let jmps' = jmps @ [length prog2];
                 prog3 = prog2 @ [IJmp 0];
                 l2 = length prog3
             in alt_loop (g # fs) (prog3[split := ISplit l1 l2]) jmps')"

definition emit_alt :: "emitter list \<Rightarrow> emitter" where
  "emit_alt fs prog =
     (case alt_loop fs prog [] of
        Inl e \<Rightarrow> Inl e
      | Inr (prog', jmps) \<Rightarrow> let end' = length prog' in Inr (fold (\<lambda>j p. p[j := IJmp end']) jmps prog'))"

definition emit_star :: "emitter \<Rightarrow> emitter" where
  "emit_star f prog =
     (let l1 = length prog;
          prog1 = prog @ [ISplit 0 0];
          body = length prog1
      in case f prog1 of
           Inl e \<Rightarrow> Inl e
         | Inr prog2 \<Rightarrow>
             let prog3 = prog2 @ [IJmp l1]; l3 = length prog3 in Inr (prog3[l1 := ISplit body l3]))"

definition emit_plus :: "emitter \<Rightarrow> emitter" where
  "emit_plus f prog =
     (let l1 = length prog in
      case f prog of
        Inl e \<Rightarrow> Inl e
      | Inr prog1 \<Rightarrow>
          let split = length prog1; prog2 = prog1 @ [ISplit 0 0]; l3 = length prog2 in Inr (prog2[split := ISplit l1 l3]))"

definition emit_quest :: "emitter \<Rightarrow> emitter" where
  "emit_quest f prog =
     (let split = length prog;
          prog1 = prog @ [ISplit 0 0];
          l1 = length prog1
      in case f prog1 of
           Inl e \<Rightarrow> Inl e
         | Inr prog2 \<Rightarrow> let l2 = length prog2 in Inr (prog2[split := ISplit l1 l2]))"

text \<open>A bounded repetition compiles copies of its body; the copies that the source makes with
  \<open>clone_ast\<close> are equal to the original.\<close>

fun compile :: "ast \<Rightarrow> emitter" where
  "compile AEmpty = checked Inr"
| "compile (AChar c) = checked (emit (IChar c))"
| "compile AAny = checked (emit IAny)"
| "compile (AClass items neg) = checked (emit (IClass items neg))"
| "compile AStart = checked (emit IStart)"
| "compile AEnd = checked (emit IEnd)"
| "compile (AConcat v) = checked (emit_seq (map compile v))"
| "compile (AAlt v) = checked (emit_alt (map compile v))"
| "compile (AStar a) = checked (emit_star (compile a))"
| "compile (APlus a) = checked (emit_plus (compile a))"
| "compile (AQuest a) = checked (emit_quest (compile a))"
| "compile (ARepeat a lo hi) =
     checked (emit_seq (replicate lo (compile a)
       @ (case hi of
            None \<Rightarrow> [checked (emit_star (compile a))]
          | Some mx \<Rightarrow> replicate (mx - lo) (checked (emit_quest (compile a))))))"

section \<open>The matcher\<close>

lemma filter_mark:
  assumes "\<not> length seen \<le> pc" and "seen ! pc \<noteq> gen"
  shows "length (filter (\<lambda>g. g \<noteq> gen) (seen[pc := gen])) < length (filter (\<lambda>g. g \<noteq> gen) seen)"
proof -
  have pc: "pc < length seen" using assms(1) by simp
  let ?k = "\<lambda>xs. length (filter (\<lambda>g. g \<noteq> gen) xs)"
  have "?k seen = ?k (take pc seen @ seen ! pc # drop (Suc pc) seen)" using id_take_nth_drop [OF pc] by simp
  moreover have "?k (seen[pc := gen]) = ?k (take pc seen @ gen # drop (Suc pc) seen)"
    by (simp only: upd_conv_take_nth_drop [OF pc])
  ultimately show ?thesis using assms(2) by simp
qed

text \<open>\<open>add_thread\<close>: the threads reachable from the stack without reading a character.  \<open>seen\<close> marks the
  program counters visited in the generation \<open>gen\<close>.\<close>

function add_thread ::
  "inst list \<Rightarrow> nat \<Rightarrow> nat \<Rightarrow> nat \<Rightarrow> nat list \<Rightarrow> nat list \<Rightarrow> nat list \<Rightarrow> (nat list \<times> nat list) option" where
  "add_thread prog gen pos n [] lst seen = Some (lst, seen)"
| "add_thread prog gen pos n (pc # stack) lst seen =
     (if pc \<ge> length seen then None
      else if seen ! pc = gen then add_thread prog gen pos n stack lst seen
      else if pc \<ge> length prog then None
      else
        case prog ! pc of
          IJmp x \<Rightarrow> add_thread prog gen pos n (x # stack) lst (seen[pc := gen])
        | ISplit x y \<Rightarrow> add_thread prog gen pos n (x # y # stack) lst (seen[pc := gen])
        | IStart \<Rightarrow>
            add_thread prog gen pos n (if pos = 0 then (pc + 1) # stack else stack) lst (seen[pc := gen])
        | IEnd \<Rightarrow>
            add_thread prog gen pos n (if pos = n then (pc + 1) # stack else stack) lst (seen[pc := gen])
        | _ \<Rightarrow> add_thread prog gen pos n stack (lst @ [pc]) (seen[pc := gen]))"
  by pat_completeness auto
termination
proof (relation "measure (\<lambda>(prog, gen, pos, n, stack, lst, seen).
    2 * length (filter (\<lambda>g. g \<noteq> gen) seen) + length stack)")
qed (simp, simp, (frule (1) filter_mark, simp)+)

declare add_thread.simps(2) [simp del]

text \<open>The generation counter is a \<open>u32\<close>.\<close>

definition next_gen :: "nat \<Rightarrow> nat" where
  "next_gen gen = (gen + 1) mod 2 ^ 32"

lemma next_gen_small: "gen + 1 < 2 ^ 32 \<Longrightarrow> next_gen gen = Suc gen"
  by (simp add: next_gen_def)

text \<open>Whether a thread reads the character at \<open>pos\<close>.\<close>

definition reads :: "inst \<Rightarrow> uchar list \<Rightarrow> nat \<Rightarrow> bool" where
  "reads i chars pos =
     (case i of
        IChar c \<Rightarrow> pos < length chars \<and> chars ! pos = c
      | IAny \<Rightarrow> pos < length chars \<and> chars ! pos \<noteq> newline
      | IClass items neg \<Rightarrow> pos < length chars \<and> class_hit items neg (chars ! pos)
      | _ \<Rightarrow> False)"

text \<open>The inner loop of \<open>is_match\<close>: \<open>Some None\<close> is the early \<open>return true\<close>.\<close>

fun run_threads ::
  "inst list \<Rightarrow> uchar list \<Rightarrow> nat \<Rightarrow> nat \<Rightarrow> nat list \<Rightarrow> nat list \<Rightarrow> nat list \<Rightarrow> (nat list \<times> nat list) option option" where
  "run_threads prog chars pos gen [] nlist seen = Some (Some (nlist, seen))"
| "run_threads prog chars pos gen (pc # pcs) nlist seen =
     (if pc \<ge> length prog then None
      else if prog ! pc = IMatch then Some None
      else if reads (prog ! pc) chars pos then
        case add_thread prog gen (pos + 1) (length chars) [pc + 1] nlist seen of
          None \<Rightarrow> None
        | Some (nlist', seen') \<Rightarrow> run_threads prog chars pos gen pcs nlist' seen'
      else run_threads prog chars pos gen pcs nlist seen)"

text \<open>The loop over the positions from \<open>pos\<close> on, with \<open>k\<close> of them after this one.\<close>

fun scan_text :: "inst list \<Rightarrow> uchar list \<Rightarrow> nat \<Rightarrow> nat \<Rightarrow> nat \<Rightarrow> nat list \<Rightarrow> nat list \<Rightarrow> bool option" where
  "scan_text prog chars k pos gen clist seen =
     (let gen' = next_gen gen in
      case run_threads prog chars pos gen' clist [] seen of
        None \<Rightarrow> None
      | Some None \<Rightarrow> Some True
      | Some (Some (nlist, seen')) \<Rightarrow>
          (case k of 0 \<Rightarrow> Some False | Suc k' \<Rightarrow> scan_text prog chars k' (pos + 1) gen' nlist seen'))"

declare scan_text.simps [simp del]

definition is_match :: "inst list \<Rightarrow> string \<Rightarrow> bool option" where
  "is_match prog txt =
     (let chars = utf8_chars txt; n = length chars in
      case add_thread prog 1 0 n [0] [] (replicate (length prog) 0) of
        None \<Rightarrow> None
      | Some (clist, seen) \<Rightarrow> scan_text prog chars n 0 1 clist seen)"

section \<open>Sets of patterns\<close>

record regex_set =
  set_prog :: "inst list"
  set_starts :: "nat list"
  npat :: nat

definition relocate :: "inst \<Rightarrow> nat \<Rightarrow> nat \<Rightarrow> inst" where
  "relocate i base id' =
     (case i of
        ISplit x y \<Rightarrow> ISplit (x + base) (y + base)
      | IJmp x \<Rightarrow> IJmp (x + base)
      | IMatch \<Rightarrow> IMatchN id'
      | IMatchN _ \<Rightarrow> IMatchN id'
      | _ \<Rightarrow> i)"

text \<open>The inner loop of \<open>matches\<close>; \<open>hit\<close> is indexed by pattern.\<close>

fun set_threads ::
  "inst list \<Rightarrow> uchar list \<Rightarrow> nat \<Rightarrow> nat \<Rightarrow> nat list \<Rightarrow> nat list \<Rightarrow> nat list \<Rightarrow> bool list \<times> nat
     \<Rightarrow> (nat list \<times> nat list \<times> bool list \<times> nat) option" where
  "set_threads prog chars pos gen [] nlist seen (hit, nhit) = Some (nlist, seen, hit, nhit)"
| "set_threads prog chars pos gen (pc # pcs) nlist seen (hit, nhit) =
     (if pc \<ge> length prog then None
      else
        case prog ! pc of
          IMatchN id' \<Rightarrow>
            if id' \<ge> length hit then None
            else set_threads prog chars pos gen pcs nlist seen
                   (if hit ! id' then (hit, nhit) else (hit[id' := True], nhit + 1))
        | i \<Rightarrow>
            if reads i chars pos then
              case add_thread prog gen (pos + 1) (length chars) [pc + 1] nlist seen of
                None \<Rightarrow> None
              | Some (nlist', seen') \<Rightarrow> set_threads prog chars pos gen pcs nlist' seen' (hit, nhit)
            else set_threads prog chars pos gen pcs nlist seen (hit, nhit))"

fun set_scan ::
  "inst list \<Rightarrow> uchar list \<Rightarrow> nat \<Rightarrow> nat \<Rightarrow> nat \<Rightarrow> nat \<Rightarrow> nat list \<Rightarrow> nat list \<Rightarrow> bool list \<times> nat \<Rightarrow> bool list option" where
  "set_scan prog chars np k pos gen clist seen st =
     (let gen' = next_gen gen in
      case set_threads prog chars pos gen' clist [] seen st of
        None \<Rightarrow> None
      | Some (nlist, seen', hit, nhit) \<Rightarrow>
          if nhit = np then Some hit
          else (case k of
                  0 \<Rightarrow> Some hit
                | Suc k' \<Rightarrow> set_scan prog chars np k' (pos + 1) gen' nlist seen' (hit, nhit)))"

declare set_scan.simps [simp del]

fun add_starts ::
  "inst list \<Rightarrow> nat \<Rightarrow> nat list \<Rightarrow> nat list \<Rightarrow> nat list \<Rightarrow> (nat list \<times> nat list) option" where
  "add_starts prog n [] lst seen = Some (lst, seen)"
| "add_starts prog n (st # sts) lst seen =
     (case add_thread prog 1 0 n [st] lst seen of
        None \<Rightarrow> None
      | Some (lst', seen') \<Rightarrow> add_starts prog n sts lst' seen')"

definition set_matches :: "regex_set \<Rightarrow> string \<Rightarrow> nat list option" where
  "set_matches rs txt =
     (if npat rs = 0 then Some []
      else
        let chars = utf8_chars txt; n = length chars; prog = set_prog rs in
        case add_starts prog n (set_starts rs) [] (replicate (length prog) 0) of
          None \<Rightarrow> None
        | Some (clist, seen) \<Rightarrow>
            map_option (\<lambda>hit. filter (\<lambda>i. hit ! i) [0..<length hit])
              (set_scan prog chars (npat rs) n 0 1 clist seen (replicate (npat rs) False, 0)))"

section \<open>The parser\<close>

record parser =
  p_chars :: "uchar list"
  p_pos :: nat
  p_depth :: nat

definition at :: "nat \<Rightarrow> parser \<Rightarrow> uchar option" where
  "at off p = (if p_pos p + off < length (p_chars p) then Some (p_chars p ! (p_pos p + off)) else None)"

definition peek :: "parser \<Rightarrow> uchar option" where
  "peek p = at 0 p"

definition skip :: "parser \<Rightarrow> parser" where
  "skip p = p\<lparr>p_pos := p_pos p + 1\<rparr>"

definition bump :: "parser \<Rightarrow> uchar option \<times> parser" where
  "bump p = (peek p, if peek p \<noteq> None then skip p else p)"

definition eat :: "uchar \<Rightarrow> parser \<Rightarrow> bool \<times> parser" where
  "eat c p = (if peek p = Some c then (True, skip p) else (False, p))"

text \<open>\<open>parse_int\<close>: the digits at the cursor, refused when they do not fit 32 bits (the cursor stays
  behind them).\<close>

definition scan_int :: "parser \<Rightarrow> nat option \<times> parser" where
  "scan_int p =
     (let ds = takeWhile (on_ascii is_ascii_digit) (drop (p_pos p) (p_chars p)) in
      (if ds = [] then None else parse_uint 32 (concat ds), p\<lparr>p_pos := p_pos p + length ds\<rparr>))"

text \<open>The text of a bound: \<open>{n}\<close>, \<open>{n,}\<close>, \<open>{n,m}\<close> or \<open>{,m}\<close>.\<close>

definition read_bound :: "parser \<Rightarrow> ((nat \<times> nat option) \<times> parser) option" where
  "read_bound p =
     (case scan_int (skip p) of (mn, p1) \<Rightarrow>
        if peek p1 = Some ''}'' \<and> mn \<noteq> None then Some ((the mn, mn), skip p1)
        else if peek p1 = Some '','' then
          (case scan_int (skip p1) of (mx, p2) \<Rightarrow>
             case eat ''}'' p2 of (ok, p3) \<Rightarrow>
               if ok then Some ((case mn of Some m \<Rightarrow> m | None \<Rightarrow> 0, mx), p3) else None)
        else None)"

text \<open>\<open>try_bound\<close>: an error, or a bound with the cursor behind it, or no bound with the cursor as it was.\<close>

definition try_bound :: "parser \<Rightarrow> string + ((nat \<times> nat option) option \<times> parser)" where
  "try_bound p =
     (case read_bound p of
        None \<Rightarrow> Inr (None, p)
      | Some ((lo, hi), p') \<Rightarrow>
          if lo > MAX_REPEAT \<or> (case hi of Some m \<Rightarrow> m > MAX_REPEAT | None \<Rightarrow> False)
          then Inl ''repetition count too large''
          else if (case hi of Some m \<Rightarrow> m < lo | None \<Rightarrow> False) then Inl ''bad repetition range''
          else Inr (Some (lo, hi), p'))"

definition control_escape :: "uchar \<Rightarrow> uchar" where
  "control_escape c =
     (if c = ''n'' then newline else if c = ''t'' then [CHR 0x09] else if c = ''r'' then [CHR 0x0D] else c)"

definition shorthand :: "uchar \<Rightarrow> class_item option" where
  "shorthand c =
     map_of [(''d'', Digit), (''D'', NotDigit), (''w'', Word), (''W'', NotWord), (''s'', Space), (''S'', NotSpace)] c"

definition parse_escape :: "parser \<Rightarrow> string + (ast \<times> parser)" where
  "parse_escape p =
     (case bump p of
        (None, _) \<Rightarrow> Inl ''trailing backslash''
      | (Some c, p1) \<Rightarrow>
          (case shorthand c of
             Some it \<Rightarrow> Inr (AClass [it] False, p1)
           | None \<Rightarrow> Inr (AChar (control_escape c), p1)))"

definition class_maybe_range :: "class_item list \<Rightarrow> uchar \<Rightarrow> parser \<Rightarrow> string + (class_item list \<times> parser)" where
  "class_maybe_range items lo p =
     (if peek p = Some ''-'' \<and> (case at 1 p of Some c \<Rightarrow> c \<noteq> '']'' | None \<Rightarrow> False) then
        let p1 = skip p;
            r = (if peek p1 = Some [CHR 0x5C] then
                   (case bump (skip p1) of (c, p2) \<Rightarrow> (map_option control_escape c, p2))
                 else bump p1)
        in case r of
             (None, _) \<Rightarrow> Inl (''unterminated '' @ [CHR 0x60] @ ''['' @ [CHR 0x60])
           | (Some hi, p2) \<Rightarrow>
               if code_point hi < code_point lo then Inl ''bad character range''
               else Inr (items @ [Range lo hi], p2)
      else Inr (items @ [Range lo lo], p))"

text \<open>One member of a class.\<close>

definition class_member :: "class_item list \<Rightarrow> parser \<Rightarrow> string + (class_item list \<times> parser)" where
  "class_member items p =
     (if peek p = Some [CHR 0x5C] then
        case bump (skip p) of
          (None, _) \<Rightarrow> Inl (''unterminated '' @ [CHR 0x60] @ ''['' @ [CHR 0x60])
        | (Some c, p1) \<Rightarrow>
            (case shorthand c of
               Some it \<Rightarrow> Inr (items @ [it], p1)
             | None \<Rightarrow> class_maybe_range items (control_escape c) p1)
      else
        case bump p of
          (None, _) \<Rightarrow> Inl (''unterminated '' @ [CHR 0x60] @ ''['' @ [CHR 0x60])
        | (Some lo, p1) \<Rightarrow> class_maybe_range items lo p1)"

text \<open>The parsers that loop or call each other take fuel; \<open>None\<close> is fuel run out.\<close>

type_synonym 'a parsed = "(string + ('a \<times> parser)) option"

fun bindp :: "'a parsed \<Rightarrow> ('a \<Rightarrow> parser \<Rightarrow> 'b parsed) \<Rightarrow> 'b parsed" where
  "bindp None f = None"
| "bindp (Some (Inl e)) f = Some (Inl e)"
| "bindp (Some (Inr (a, p))) f = f a p"

fun class_loop :: "nat \<Rightarrow> bool \<Rightarrow> bool \<Rightarrow> class_item list \<Rightarrow> parser \<Rightarrow> ast parsed" where
  "class_loop 0 first negated items p = None"
| "class_loop (Suc k) first negated items p =
     (case peek p of
        None \<Rightarrow> Some (Inl (''unterminated '' @ [CHR 0x60] @ ''['' @ [CHR 0x60]))
      | Some c \<Rightarrow>
          if c = '']'' \<and> \<not> first then Some (Inr (AClass items negated, skip p))
          else bindp (Some (class_member items p)) (class_loop k False negated))"

definition parse_class :: "nat \<Rightarrow> parser \<Rightarrow> ast parsed" where
  "parse_class k p = (case eat ''^'' p of (negated, p1) \<Rightarrow> class_loop k True negated [] p1)"

text \<open>Behind \<open>(?\<close>: everything up to and including a colon or a closing parenthesis.\<close>

fun skip_flags :: "nat \<Rightarrow> parser \<Rightarrow> parser option" where
  "skip_flags 0 p = None"
| "skip_flags (Suc k) p =
     (case peek p of
        None \<Rightarrow> Some p
      | Some c \<Rightarrow> if c = '':'' \<or> c = '')'' then Some (skip p) else skip_flags k (skip p))"

fun parse_alt :: "nat \<Rightarrow> parser \<Rightarrow> ast parsed"
  and alt_rest :: "nat \<Rightarrow> ast list \<Rightarrow> parser \<Rightarrow> ast parsed"
  and parse_concat :: "nat \<Rightarrow> ast list \<Rightarrow> parser \<Rightarrow> ast parsed"
  and parse_repeat :: "nat \<Rightarrow> parser \<Rightarrow> ast parsed"
  and parse_atom :: "nat \<Rightarrow> parser \<Rightarrow> ast parsed" where
  "parse_alt 0 p = None"
| "parse_alt (Suc k) p = bindp (parse_concat k [] p) (\<lambda>a. alt_rest k [a])"
| "alt_rest 0 alts p = None"
| "alt_rest (Suc k) alts p =
     (case eat ''|'' p of (again, p1) \<Rightarrow>
        if again then bindp (parse_concat k [] p1) (\<lambda>a. alt_rest k (alts @ [a]))
        else Some (Inr (if length alts = 1 then hd alts else AAlt alts, p1)))"
| "parse_concat 0 items p = None"
| "parse_concat (Suc k) items p =
     (if (case peek p of Some c \<Rightarrow> c \<noteq> ''|'' \<and> c \<noteq> '')'' | None \<Rightarrow> False)
      then bindp (parse_repeat k p) (\<lambda>a. parse_concat k (items @ [a]))
      else Some (Inr (case items of [] \<Rightarrow> AEmpty | [a] \<Rightarrow> a | _ \<Rightarrow> AConcat items, p)))"
| "parse_repeat 0 p = None"
| "parse_repeat (Suc k) p =
     bindp (parse_atom k p) (\<lambda>a p1.
       let done' = (\<lambda>node p2. Some (Inr (node, snd (eat ''?'' p2)))) in
       if peek p1 = Some ''*'' then done' (AStar a) (skip p1)
       else if peek p1 = Some ''+'' then done' (APlus a) (skip p1)
       else if peek p1 = Some ''?'' then done' (AQuest a) (skip p1)
       else if peek p1 = Some ''{'' then
         (case try_bound p1 of
            Inl e \<Rightarrow> Some (Inl e)
          | Inr (Some (lo, hi), p2) \<Rightarrow> done' (ARepeat a lo hi) p2
          | Inr (None, p2) \<Rightarrow> Some (Inr (a, p2)))
       else Some (Inr (a, p1)))"
| "parse_atom 0 p = None"
| "parse_atom (Suc k) p =
     (let p0 = p\<lparr>p_depth := p_depth p + 1\<rparr> in
      if p_depth p0 > MAX_DEPTH then Some (Inl ''pattern too deeply nested'')
      else
        let leave = (\<lambda>a q. Some (Inr (a, q\<lparr>p_depth := p_depth q - 1\<rparr>))) in
        case bump p0 of
          (None, p1) \<Rightarrow> leave AEmpty p1
        | (Some c, p1) \<Rightarrow>
            if c = ''('' then
              (case (if peek p1 = Some ''?'' then skip_flags k (skip p1) else Some p1) of
                 None \<Rightarrow> None
               | Some p2 \<Rightarrow>
                   bindp (parse_alt k p2) (\<lambda>a p3.
                     case eat '')'' p3 of (closed, p4) \<Rightarrow>
                       if closed then leave a p4 else Some (Inl (''unmatched '' @ [CHR 0x60] @ ''('' @ [CHR 0x60]))))
            else if c = ''['' then bindp (parse_class k p1) leave
            else if c = ''.'' then leave AAny p1
            else if c = ''^'' then leave AStart p1
            else if c = ''$'' then leave AEnd p1
            else if c = [CHR 0x5C] then bindp (Some (parse_escape p1)) leave
            else if c = ''*'' \<or> c = ''+'' \<or> c = ''?'' then Some (Inl ''nothing to repeat'')
            else leave (AChar c) p1)"

definition parse_fuel :: "uchar list \<Rightarrow> nat" where
  "parse_fuel cs = 6 * length cs + 7"

text \<open>\<open>Regex::new\<close>.  The program starts with a search prefix that skips characters.\<close>

definition parse_pattern :: "string \<Rightarrow> (string + ast) option" where
  "parse_pattern pat =
     (let cs = utf8_chars pat in
      case parse_alt (parse_fuel cs) \<lparr>p_chars = cs, p_pos = 0, p_depth = 0\<rparr> of
        None \<Rightarrow> None
      | Some (Inl e) \<Rightarrow> Some (Inl e)
      | Some (Inr (a, p)) \<Rightarrow>
          if p_pos p \<noteq> length cs then Some (Inl (''unexpected '' @ [CHR 0x60] @ cs ! p_pos p @ [CHR 0x60]))
          else Some (Inr a))"

definition regex_new :: "string \<Rightarrow> (string + inst list) option" where
  "regex_new pat =
     (case parse_pattern pat of
        None \<Rightarrow> None
      | Some (Inl e) \<Rightarrow> Some (Inl e)
      | Some (Inr a) \<Rightarrow>
          (case compile a [ISplit 1 3, IAny, IJmp 0] of
             Inl e \<Rightarrow> Some (Inl e)
           | Inr prog \<Rightarrow> Some (Inr (prog @ [IMatch]))))"

text \<open>\<open>RegexSet::new\<close>.\<close>

fun set_build :: "string list \<Rightarrow> nat \<Rightarrow> inst list \<Rightarrow> nat list \<Rightarrow> (string + (inst list \<times> nat list)) option" where
  "set_build [] i prog starts = Some (Inr (prog, starts))"
| "set_build (pat # pats) i prog starts =
     (case regex_new pat of
        None \<Rightarrow> None
      | Some (Inl e) \<Rightarrow> Some (Inl e)
      | Some (Inr re) \<Rightarrow>
          let base = length prog in
          if base + length re > MAX_PROG then Some (Inl ''combined pattern set too large'')
          else set_build pats (i + 1) (prog @ map (\<lambda>x. relocate x base i) re) (starts @ [base]))"

definition set_new :: "string list \<Rightarrow> (string + regex_set) option" where
  "set_new pats =
     map_option (\<lambda>r. case r of
         Inl e \<Rightarrow> Inl e
       | Inr (prog, starts) \<Rightarrow> Inr \<lparr>set_prog = prog, set_starts = starts, npat = length pats\<rparr>)
       (set_build pats 0 [] [])"

end
