(* ===== verification/XLine.thy ===== *)
theory XLine
  imports Command Message Regex
begin

text \<open>
  Server bans (\<open>src/xline.rs\<close>), the operator commands that set them (\<open>src/coremods/core_oper.rs\<close>,
  \<open>src/modules/require_auth.rs\<close>) and their spread over server links (\<open>src/link.rs\<close>).  The lines are the
  list \<open>xlines\<close> of the server; each has a kind, a mask, an expiry (0 is permanent) and its origin.
\<close>

section \<open>Lines\<close>

fun x_tag :: "xkind \<Rightarrow> string" where
  "x_tag Kline = ''K''"
| "x_tag Gline = ''G''"
| "x_tag Zline = ''Z''"
| "x_tag Eline = ''E''"
| "x_tag Shun = ''SHUN''"
| "x_tag Qline = ''Q''"
| "x_tag Cban = ''CBAN''"
| "x_tag Svshold = ''SVSHOLD''"
| "x_tag Rline = ''R''"
| "x_tag Jupe = ''JUPE''"
| "x_tag Aline = ''ALINE''"
| "x_tag Galine = ''GALINE''"

definition from_tag :: "string \<Rightarrow> xkind option" where
  "from_tag t =
     map_of [(''K'', Kline), (''G'', Gline), (''Z'', Zline), (''E'', Eline), (''SHUN'', Shun), (''Q'', Qline),
             (''CBAN'', Cban), (''SVSHOLD'', Svshold), (''R'', Rline), (''JUPE'', Jupe), (''ALINE'', Aline),
             (''GALINE'', Galine)] t"

definition xline_origin :: "string \<Rightarrow> nat \<Rightarrow> nat \<Rightarrow> string" where
  "xline_origin who set_at till =
     (if set_at = 0 then ''set by '' @ who
      else if till > set_at then
        ''set by '' @ who @ '' on '' @ long_date set_at @ '', duration '' @ human_duration (till - set_at)
      else ''set by '' @ who @ '' on '' @ long_date set_at)"

definition all_digits :: "string \<Rightarrow> bool" where
  "all_digits w \<longleftrightarrow> w \<noteq> [] \<and> list_all is_ascii_digit w"

definition or_zero :: "nat option \<Rightarrow> nat" where
  "or_zero v = (case v of Some n \<Rightarrow> n | None \<Rightarrow> 0)"

definition parse_db_line :: "string \<Rightarrow> xline option" where
  "parse_db_line line =
     (case split_char (CHR '' '') line of
        tag # msk # exp # fourth # rest \<Rightarrow>
          (case from_tag tag of
             None \<Rightarrow> None
           | Some kind \<Rightarrow>
               let mk = (\<lambda>at who ws.
                     if who = [] then None
                     else Some \<lparr>x_kind = kind, x_mask = msk, x_reason = join_with '' '' ws, x_setter = who,
                                x_expires = or_zero (parse_uint 64 exp), x_set_at = at\<rparr>)
               in if all_digits fourth then
                    (case rest of [] \<Rightarrow> None | who # ws \<Rightarrow> mk (or_zero (parse_uint 64 fourth)) who ws)
                  else mk 0 fourth rest)
      | _ \<Rightarrow> None)"

definition ban_expiry_suffix :: "nat \<Rightarrow> nat \<Rightarrow> string" where
  "ban_expiry_suffix till now =
     (if till > now then
        '' (expires in '' @ human_duration (till - now) @ '' on '' @ long_date till @ '')''
      else [])"

section \<open>Matching\<close>

definition x_live :: "xline \<Rightarrow> nat \<Rightarrow> bool" where
  "x_live x now \<longleftrightarrow> x_expires x = 0 \<or> x_expires x > now"

definition x_hits :: "env \<Rightarrow> xkind \<Rightarrow> string \<Rightarrow> string \<Rightarrow> nat \<Rightarrow> xline \<Rightarrow> bool" where
  "x_hits E kind uh ip' now x \<longleftrightarrow> x_kind x = kind \<and> x_live x now
     \<and> (if kind = Zline then glob_match (str_lower E) (x_mask x) ip' else glob_match (str_lower E) (x_mask x) uh)"

definition xmatch :: "env \<Rightarrow> server \<Rightarrow> xkind \<Rightarrow> string \<Rightarrow> string \<Rightarrow> bool" where
  "xmatch E s kind uh ip' = list_ex (x_hits E kind uh ip' (clock s)) (xlines s)"

definition is_exempt :: "env \<Rightarrow> server \<Rightarrow> string \<Rightarrow> string \<Rightarrow> string \<Rightarrow> bool" where
  "is_exempt E s ident' host' ip' = xmatch E s Eline (ident' @ ''@'' @ host') ip'"

definition is_shunned :: "env \<Rightarrow> server \<Rightarrow> string \<Rightarrow> string \<Rightarrow> string \<Rightarrow> bool" where
  "is_shunned E s ident' host' ip' =
     (if is_exempt E s ident' host' ip' then False else xmatch E s Shun (ident' @ ''@'' @ host') ip')"

definition user_shunned :: "env \<Rightarrow> server \<Rightarrow> uid \<Rightarrow> bool" where
  "user_shunned E s uid =
     (case map_of (users s) uid of Some u \<Rightarrow> is_shunned E s (ident u) (host u) (ip u) | None \<Rightarrow> False)"

definition reason_of_first :: "(xline \<Rightarrow> bool) \<Rightarrow> server \<Rightarrow> string option" where
  "reason_of_first P s = map_option x_reason (find (\<lambda>x. x_live x (clock s) \<and> P x) (xlines s))"

definition matched_qline :: "env \<Rightarrow> server \<Rightarrow> string \<Rightarrow> string option" where
  "matched_qline E s n = reason_of_first (\<lambda>x. x_kind x = Qline \<and> glob_match (str_lower E) (x_mask x) n) s"

definition matched_svshold :: "env \<Rightarrow> server \<Rightarrow> string \<Rightarrow> string option" where
  "matched_svshold E s n = reason_of_first (\<lambda>x. x_kind x = Svshold \<and> glob_match (str_lower E) (x_mask x) n) s"

definition matched_jupe :: "env \<Rightarrow> server \<Rightarrow> string \<Rightarrow> string option" where
  "matched_jupe E s n =
     reason_of_first (\<lambda>x. x_kind x = Jupe
        \<and> glob_match (str_lower E) (to_ascii_lowercase (x_mask x)) (to_ascii_lowercase n)) s"

definition nick_reserved :: "env \<Rightarrow> server \<Rightarrow> string \<Rightarrow> string option" where
  "nick_reserved E s n = (case matched_qline E s n of Some r \<Rightarrow> Some r | None \<Rightarrow> matched_svshold E s n)"

text \<open>The kinds are tried in order; the reason is that of the first live line of the kind.\<close>

fun first_ban :: "env \<Rightarrow> server \<Rightarrow> string \<Rightarrow> string \<Rightarrow> xkind list \<Rightarrow> string option" where
  "first_ban E s uh ip' [] = None"
| "first_ban E s uh ip' (kind # ks) =
     (if xmatch E s kind uh ip' then
        let (reason, till) =
              (case find (x_hits E kind uh ip' (clock s)) (xlines s) of
                 Some x \<Rightarrow> (x_reason x, x_expires x)
               | None \<Rightarrow> ([], 0))
        in Some (x_tag kind @ ''-lined: '' @ reason @ ban_expiry_suffix till (clock s))
      else first_ban E s uh ip' ks)"

definition matched_xline :: "env \<Rightarrow> server \<Rightarrow> string \<Rightarrow> string \<Rightarrow> string \<Rightarrow> string option" where
  "matched_xline E s ident' host' ip' =
     (if is_exempt E s ident' host' ip' then None
      else first_ban E s (ident' @ ''@'' @ host') ip' [Kline, Gline, Zline])"

definition matched_require_auth :: "env \<Rightarrow> server \<Rightarrow> string \<Rightarrow> string \<Rightarrow> string \<Rightarrow> string option" where
  "matched_require_auth E s ident' host' ip' =
     map_option
       (\<lambda>x. if x_reason x = [] then ''You must be logged into an account to use this server'' else x_reason x)
       (find (\<lambda>x. x_kind x \<in> {Aline, Galine} \<and> x_live x (clock s)
                \<and> (glob_match (str_lower E) (x_mask x) (ident' @ ''@'' @ host')
                   \<or> glob_match (str_lower E) (x_mask x) ip')) (xlines s))"

definition require_auth_check :: "env \<Rightarrow> server \<Rightarrow> uid \<Rightarrow> string option" where
  "require_auth_check E s uid =
     (case map_of (users s) uid of
        None \<Rightarrow> None
      | Some u \<Rightarrow>
          if account u \<noteq> None \<or> oper (flags u) then None
          else matched_require_auth E s (ident u) (host_display u) (ip u))"

text \<open>A pattern that does not compile matches nothing.\<close>

definition regex_hits :: "string \<Rightarrow> string list \<Rightarrow> bool" where
  "regex_hits pattern texts =
     (case regex_new pattern of
        Some (Inr prog) \<Rightarrow> list_ex (\<lambda>t. is_match prog t = Some True) texts
      | _ \<Rightarrow> False)"

definition rline_texts :: "string \<Rightarrow> string \<Rightarrow> string \<Rightarrow> string \<Rightarrow> string \<Rightarrow> string list" where
  "rline_texts n ident' host' ip' real =
     [n @ ''!'' @ ident' @ ''@'' @ host' @ '' '' @ real, n @ ''!'' @ ident' @ ''@'' @ ip' @ '' '' @ real]"

definition matched_rline :: "server \<Rightarrow> string \<Rightarrow> string \<Rightarrow> string \<Rightarrow> string \<Rightarrow> string \<Rightarrow> string option" where
  "matched_rline s n ident' host' ip' real =
     map_option (\<lambda>x. ''R-lined: '' @ x_reason x @ ban_expiry_suffix (x_expires x) (clock s))
       (find (\<lambda>x. x_kind x = Rline \<and> x_live x (clock s) \<and> regex_hits (x_mask x) (rline_texts n ident' host' ip' real))
          (xlines s))"

definition xline_active :: "server \<Rightarrow> xkind \<Rightarrow> string \<Rightarrow> bool" where
  "xline_active s kind msk = list_ex (\<lambda>x. x_kind x = kind \<and> x_mask x = msk \<and> x_live x (clock s)) (xlines s)"

definition xline_active_exact :: "server \<Rightarrow> xkind \<Rightarrow> string \<Rightarrow> string \<Rightarrow> bool" where
  "xline_active_exact s kind msk reason =
     list_ex (\<lambda>x. x_kind x = kind \<and> x_mask x = msk \<and> x_reason x = reason \<and> x_live x (clock s)) (xlines s)"

section \<open>The store\<close>

definition xline_db_path :: "server \<Rightarrow> string" where
  "xline_db_path s =
     (case conf s ''xline_database'' of
        Some p \<Rightarrow> if p \<noteq> [] then p else conf_path s @ ''.xlines''
      | None \<Rightarrow> conf_path s @ ''.xlines'')"

definition xline_row :: "xline \<Rightarrow> string option list" where
  "xline_row x = [Some (x_tag (x_kind x)), Some (x_mask x), Some (show_i64 (x_expires x)),
                  Some (show_i64 (x_set_at x)), Some (x_setter x), Some (x_reason x)]"

definition xline_text :: "xline \<Rightarrow> string" where
  "xline_text x = x_tag (x_kind x) @ '' '' @ x_mask x @ '' '' @ show_nat (x_expires x) @ '' ''
     @ show_nat (x_set_at x) @ '' '' @ x_setter x @ '' '' @ x_reason x"

definition xlines_text :: "xline list \<Rightarrow> string" where
  "xlines_text xs = concat (map (\<lambda>x. xline_text x @ [CHR 0x0A]) xs)"

definition save_xlines :: "server \<Rightarrow> server" where
  "save_xlines s =
     (if stores_in_db s then
        store_rows_replace ''echoircd_xlines''
          (''INSERT INTO echoircd_xlines (tag, mask, expires, set_at, setter, reason) ''
           @ ''VALUES ($1, $2, $3, $4, $5, $6)'')
          (map xline_row (xlines s)) s
      else persist_save ''xlines'' (xline_db_path s) (xlines_text (xlines s)) s)"

definition push_xline :: "xline \<Rightarrow> server \<Rightarrow> server" where
  "push_xline x s = (if x_expires x \<noteq> 0 \<and> x_expires x \<le> clock s then s else s\<lparr>xlines := xlines s @ [x]\<rparr>)"

definition load_xlines_text :: "string option \<Rightarrow> server \<Rightarrow> server" where
  "load_xlines_text stored s =
     (case stored of
        None \<Rightarrow> s
      | Some t \<Rightarrow> fold (\<lambda>line s. case parse_db_line line of Some x \<Rightarrow> push_xline x s | None \<Rightarrow> s) (str_lines t) s)"

definition column :: "string option list \<Rightarrow> nat \<Rightarrow> string option" where
  "column r i = (if i < length r then r ! i else None)"

definition or_empty :: "string option \<Rightarrow> string" where
  "or_empty v = (case v of Some w \<Rightarrow> w | None \<Rightarrow> [])"

definition load_row :: "string option list \<Rightarrow> server \<Rightarrow> server" where
  "load_row r s =
     (case (column r 0, column r 1) of
        (Some t, Some m) \<Rightarrow>
          (case from_tag t of
             None \<Rightarrow> s
           | Some kind \<Rightarrow>
               push_xline \<lparr>x_kind = kind, x_mask = m, x_reason = or_empty (column r 5), x_setter = or_empty (column r 4),
                 x_expires = or_zero (Option.bind (column r 2) (parse_uint 64)),
                 x_set_at = or_zero (Option.bind (column r 3) (parse_uint 64))\<rparr> s)
      | _ \<Rightarrow> s)"

fun keep_first :: "(string \<times> string) list \<Rightarrow> xline list \<Rightarrow> xline list" where
  "keep_first seen [] = []"
| "keep_first seen (x # xs) =
     (let k = (x_tag (x_kind x), x_mask x) in
      if k \<in> set seen then keep_first seen xs else x # keep_first (k # seen) xs)"

text \<open>\<open>rows\<close> is the answer of the database to the query for the table, \<open>file\<close> and \<open>answer\<close> what the flat
  file and the stored text hold.\<close>

definition load_xlines ::
  "string option list list option \<Rightarrow> string option \<Rightarrow> string option option \<Rightarrow> server \<Rightarrow> server" where
  "load_xlines rows file answer s =
     (let stored = persist_load s file answer;
          s1 = (case store_rows_load s rows of
                  Some [] \<Rightarrow> save_xlines (load_xlines_text stored s)
                | Some rs \<Rightarrow> fold load_row rs s
                | None \<Rightarrow> load_xlines_text stored s);
          s2 = s1\<lparr>xlines := keep_first [] (xlines s1)\<rparr>
      in if length (xlines s2) \<noteq> length (xlines s1) then save_xlines s2 else s2)"

section \<open>Refusing banned users\<close>

definition ERR_YOUREBANNEDCREEP :: nat where "ERR_YOUREBANNEDCREEP = 465"

definition refuse_banned :: "uid \<Rightarrow> string \<Rightarrow> server \<Rightarrow> server" where
  "refuse_banned uid reason s =
     (let s1 = numeric uid ERR_YOUREBANNEDCREEP ('':'' @ reason) s;
          s2 = send uid (''ERROR :'' @ trf (catalog_of s1) ''Closing link: ({0})'' [reason]) s1
      in remove_user uid reason s2)"

definition xline_victims :: "env \<Rightarrow> server \<Rightarrow> (uid \<times> string) list" where
  "xline_victims E s =
     List.map_filter (\<lambda>(uid, u). map_option (\<lambda>r. (uid, r)) (matched_xline E s (ident u) (host u) (ip u)))
       (filter (\<lambda>(_, u). registered u) (users s))"

definition enforce_xlines :: "env \<Rightarrow> server \<Rightarrow> server" where
  "enforce_xlines E s = fold (\<lambda>(uid, reason). refuse_banned uid reason) (xline_victims E s) s"

definition rline_victims :: "server \<Rightarrow> string \<Rightarrow> uid list" where
  "rline_victims s pattern =
     map fst (filter (\<lambda>(_, u). regex_hits pattern (rline_texts (nick u) (ident u) (host u) (ip u) (realname u)))
       (filter (\<lambda>(_, u). registered u) (users s)))"

definition enforce_rline :: "string \<Rightarrow> string \<Rightarrow> server \<Rightarrow> server" where
  "enforce_rline pattern reason s =
     fold (\<lambda>uid. refuse_banned uid (''R-lined: '' @ reason)) (rline_victims s pattern) s"

section \<open>Adding, removing and expiring\<close>

definition add_xline_at ::
  "env \<Rightarrow> xkind \<Rightarrow> string \<Rightarrow> nat \<Rightarrow> string \<Rightarrow> string \<Rightarrow> nat \<Rightarrow> server \<Rightarrow> server" where
  "add_xline_at E kind msk duration who reason set_at s =
     (let till = (if duration = 0 then 0 else sat_add set_at duration);
          s1 = s\<lparr>xlines := filter (\<lambda>x. \<not> (x_kind x = kind \<and> x_mask x = msk)) (xlines s)
                  @ [\<lparr>x_kind = kind, x_mask = msk, x_reason = reason, x_setter = who, x_expires = till,
                      x_set_at = set_at\<rparr>]\<rparr>;
          detail = (if duration = 0 then ''permanent '' @ x_tag kind @ ''-line on '' @ msk
                    else ''timed '' @ x_tag kind @ ''-line on '' @ msk @ '', expires in '' @ human_duration duration
                      @ '' (on '' @ long_date till @ '')'');
          s2 = snotice_c E ''x'' (trf (catalog_of s1) ''XLINE: {0} added a {1}: {2}'' [who, detail, reason]) s1;
          s3 = enforce_xlines E (save_xlines s2)
      in publish_event [''xline'', x_tag kind, msk, who, reason] s3)"

definition add_xline :: "env \<Rightarrow> xkind \<Rightarrow> string \<Rightarrow> nat \<Rightarrow> string \<Rightarrow> string \<Rightarrow> server \<Rightarrow> server" where
  "add_xline E kind msk duration who reason s = add_xline_at E kind msk duration who reason (clock s) s"

definition remove_xline :: "env \<Rightarrow> xkind \<Rightarrow> string \<Rightarrow> string \<Rightarrow> server \<Rightarrow> bool \<times> server" where
  "remove_xline E kind msk remover s =
     (let hit = (\<lambda>x. x_kind x = kind \<and> eq_ignore_ascii_case (x_mask x) msk);
          target = map_option (\<lambda>x. (x_expires x, x_setter x, x_reason x)) (find hit (xlines s));
          s1 = s\<lparr>xlines := filter (\<lambda>x. \<not> hit x) (xlines s)\<rparr>
      in if length (xlines s1) < length (xlines s) then
           let (till, who, reason) = (case target of Some t \<Rightarrow> t | None \<Rightarrow> (0, [], []));
               detail = (if till > clock s then
                           ''timed '' @ x_tag kind @ ''-line on '' @ msk @ '' ('' @ human_duration (till - clock s) @ '' remaining)''
                         else if till \<noteq> 0 then ''timed '' @ x_tag kind @ ''-line on '' @ msk @ '' (already expired)''
                         else ''permanent '' @ x_tag kind @ ''-line on '' @ msk)
           in (True, save_xlines (snotice_c E ''x''
                 (trf (catalog_of s1) ''XLINE: {0} removed a {1} (set by {2}: {3})'' [remover, detail, who, reason]) s1))
         else (False, s1))"

definition purge_xlines :: "env \<Rightarrow> server \<Rightarrow> server" where
  "purge_xlines E s =
     (let expired = filter (\<lambda>x. x_expires x \<noteq> 0 \<and> x_expires x \<le> clock s) (xlines s) in
      if expired = [] then s
      else
        let s1 = s\<lparr>xlines := filter (\<lambda>x. x_live x (clock s)) (xlines s)\<rparr>;
            s2 = fold (\<lambda>x s. snotice_c E ''x''
                   (trf (catalog_of s) ''XLINE: {0}-line on {1} expired ({2}): {3}''
                     [x_tag (x_kind x), x_mask x, xline_origin (x_setter x) (x_set_at x) (x_expires x), x_reason x]) s)
                   expired s1
        in save_xlines s2)"

section \<open>Links\<close>

definition addline_text :: "server \<Rightarrow> string \<Rightarrow> string \<Rightarrow> string \<Rightarrow> nat \<Rightarrow> string \<Rightarrow> string" where
  "addline_text s kind msk who duration reason =
     '':'' @ sid s @ '' ADDLINE '' @ kind @ '' '' @ msk @ '' '' @ who @ '' '' @ show_nat (clock s) @ '' ''
     @ show_nat duration @ '' :'' @ reason"

definition propagate_addline :: "string \<Rightarrow> string \<Rightarrow> string \<Rightarrow> nat \<Rightarrow> string \<Rightarrow> server \<Rightarrow> server" where
  "propagate_addline kind msk who duration reason s = propagate (addline_text s kind msk who duration reason) None s"

definition propagate_delline :: "string \<Rightarrow> string \<Rightarrow> server \<Rightarrow> server" where
  "propagate_delline kind msk s = propagate ('':'' @ sid s @ '' DELLINE '' @ kind @ '' '' @ msk) None s"

definition burst_duration :: "server \<Rightarrow> xline \<Rightarrow> nat" where
  "burst_duration s x = (if x_expires x = 0 then 0 else x_expires x - clock s)"

definition burst_xlines :: "uid \<Rightarrow> server \<Rightarrow> server" where
  "burst_xlines link_uid s =
     fold (\<lambda>x s. if x_kind x = Svshold then s
                 else link_out link_uid
                        (addline_text s (x_tag (x_kind x)) (x_mask x) (x_setter x) (burst_duration s x) (x_reason x)) s)
       (xlines s) s"

definition source_behind :: "server \<Rightarrow> string \<Rightarrow> uid \<Rightarrow> bool" where
  "source_behind s src via =
     (case map_of (remote_users s) src of
        Some ru \<Rightarrow> ru_via ru = via
      | None \<Rightarrow> (case map_of (servers s) src of Some sv \<Rightarrow> rs_via sv = via | None \<Rightarrow> False))"

definition link_setter :: "server \<Rightarrow> message \<Rightarrow> string" where
  "link_setter s msg =
     (case source msg of
        None \<Rightarrow> ''services''
      | Some src \<Rightarrow>
          (case map_of (remote_users s) src of
             Some ru \<Rightarrow> ru_nick ru
           | None \<Rightarrow> (case Option.bind (map_of (uuid_local s) src) (map_of (users s)) of
                        Some u \<Rightarrow> nick u
                      | None \<Rightarrow> src)))"

definition link_addline_recv :: "env \<Rightarrow> uid \<Rightarrow> message \<Rightarrow> server \<Rightarrow> server" where
  "link_addline_recv E via msg s =
     (case params msg of
        kind' # msk # who # settime # dur # reason # _ \<Rightarrow>
          (case source msg of
             None \<Rightarrow> s
           | Some src \<Rightarrow>
               if \<not> source_behind s src via then s
               else case (from_tag kind', parse_uint 64 dur) of
                      (Some kind, Some duration) \<Rightarrow>
                        let set_at = (case parse_uint 64 settime of Some n \<Rightarrow> n | None \<Rightarrow> clock s)
                        in propagate (to_wire msg) (Some via) (add_xline_at E kind msk duration who reason set_at s)
                    | _ \<Rightarrow> s)
      | _ \<Rightarrow> s)"

definition link_delline_recv :: "env \<Rightarrow> uid \<Rightarrow> message \<Rightarrow> server \<Rightarrow> server" where
  "link_delline_recv E via msg s =
     (case params msg of
        kind' # msk # _ \<Rightarrow>
          (case source msg of
             None \<Rightarrow> s
           | Some src \<Rightarrow>
               if \<not> source_behind s src via then s
               else case from_tag kind' of
                      None \<Rightarrow> s
                    | Some kind \<Rightarrow>
                        (case remove_xline E kind msk (link_setter s msg) s of
                           (True, s1) \<Rightarrow> propagate (to_wire msg) (Some via) s1
                         | (False, s1) \<Rightarrow> s1))
      | _ \<Rightarrow> s)"

definition link_svshold :: "env \<Rightarrow> uid \<Rightarrow> message \<Rightarrow> server \<Rightarrow> server" where
  "link_svshold E from_uid msg s =
     (case params msg of
        [n] \<Rightarrow> propagate (to_wire msg) (Some from_uid) (snd (remove_xline E Svshold n (link_setter s msg) s))
      | n # dur # reason # _ \<Rightarrow>
          (case parse_duration dur of
             None \<Rightarrow> s
           | Some d \<Rightarrow> propagate (to_wire msg) (Some from_uid) (add_xline E Svshold n d (link_setter s msg) reason s))
      | _ \<Rightarrow> s)"

section \<open>Commands\<close>

definition notice_to :: "uid \<Rightarrow> string \<Rightarrow> string \<Rightarrow> server \<Rightarrow> server" where
  "notice_to uid n m s = send uid ('':'' @ srv_name s @ '' NOTICE '' @ n @ '' :'' @ m) s"

definition actor_nick :: "server \<Rightarrow> uid \<Rightarrow> string" where
  "actor_nick s uid = (case map_of (users s) uid of Some u \<Rightarrow> nick u | None \<Rightarrow> [])"

text \<open>What follows the mask: a duration and a reason, or a reason alone.\<close>

definition ban_args :: "string list \<Rightarrow> nat \<times> string" where
  "ban_args args =
     (case parse_duration (hd args) of
        Some d \<Rightarrow> let r = join_with '' '' (tl args) in (d, if str_trim r = [] then ''No reason given'' else r)
      | None \<Rightarrow> (0, join_with '' '' args))"

definition do_xline :: "env \<Rightarrow> uid \<Rightarrow> string list \<Rightarrow> xkind \<Rightarrow> server \<Rightarrow> cmd_result \<times> server" where
  "do_xline E uid params' kind s =
     (case require_oper uid s of
        (False, s1) \<Rightarrow> (CmdFail, s1)
      | (True, s1) \<Rightarrow>
          let msk = hd params'; n = actor_nick s1 uid in
          if length params' < 2 then
            (case remove_xline E kind msk n s1 of
               (True, s2) \<Rightarrow> (CmdOk, propagate_delline (x_tag kind) msk s2)
             | (False, s2) \<Rightarrow> (CmdOk, notice_to uid n (trf (catalog_of s2) ''{0}-line not found: {1}'' [x_tag kind, msk]) s2))
          else
            let (dur, reason) = ban_args (tl params') in
            if xline_active_exact s1 kind msk reason then
              (CmdOk, notice_to uid n (trf (catalog_of s1) ''{0}-line already set on {1}'' [x_tag kind, msk]) s1)
            else (CmdOk, propagate_addline (x_tag kind) msk n dur reason (add_xline E kind msk dur n reason s1)))"

text \<open>The commands that only name the kind of line.  \<open>JUPE\<close> also closes links and is not among them.\<close>

definition ban_kind :: "string \<Rightarrow> xkind option" where
  "ban_kind cmd =
     map_of [(''KLINE'', Kline), (''GLINE'', Gline), (''ZLINE'', Zline), (''ELINE'', Eline), (''SHUN'', Shun),
             (''QLINE'', Qline), (''CBAN'', Cban), (''ALINE'', Aline), (''GALINE'', Galine)] cmd"

definition ban_handle :: "env \<Rightarrow> string \<Rightarrow> uid \<Rightarrow> string list \<Rightarrow> server \<Rightarrow> (cmd_result \<times> server) option" where
  "ban_handle E cmd uid params' s = map_option (\<lambda>kind. do_xline E uid params' kind s) (ban_kind cmd)"

definition rline_handle :: "env \<Rightarrow> uid \<Rightarrow> string list \<Rightarrow> server \<Rightarrow> cmd_result \<times> server" where
  "rline_handle E uid params' s =
     (case require_oper uid s of
        (False, s1) \<Rightarrow> (CmdFail, s1)
      | (True, s1) \<Rightarrow>
          let pattern = hd params'; n = actor_nick s1 uid in
          if length params' < 2 then
            (case remove_xline E Rline pattern n s1 of
               (True, s2) \<Rightarrow> (CmdOk, propagate_delline ''R'' pattern s2)
             | (False, s2) \<Rightarrow> (CmdOk, notice_to uid n (trf (catalog_of s2) ''R-line not found: {0}'' [pattern]) s2))
          else
            (case regex_new pattern of
               Some (Inl e) \<Rightarrow> (CmdFail, notice_to uid n (trf (catalog_of s1) ''Invalid RLINE regex: {0}'' [e]) s1)
             | _ \<Rightarrow>
                 let dur = or_zero (parse_duration (params' ! 1));
                     reason = (if length params' > 2 then params' ! 2 else ''No reason given'');
                     s2 = propagate_addline ''R'' pattern n dur reason (add_xline E Rline pattern dur n reason s1)
                 in (CmdOk, enforce_rline pattern reason s2)))"

end
