(* ===== verification/Membership.thy ===== *)
theory Membership
  imports Channels
begin

text \<open>
  The membership invariant.  A member is recorded twice, in the channel's member table and in the
  user's list of channels; every operation of \<open>src/channels.rs\<close> that changes one of them must keep
  the two in step, keep each table free of repetitions, file every channel under the lower-case form
  of its name, and drop channels nobody is left in.  This theory states it and proves it for joining,
  leaving, flood kicks, forced parts, renames, reveals and the background purges.
\<close>

section \<open>The invariant\<close>

definition on_chan :: "(string \<times> channel) list \<Rightarrow> uid \<Rightarrow> string \<Rightarrow> bool" where
  "on_chan cs uid key = (case map_of cs key of Some c \<Rightarrow> map_of (members c) uid \<noteq> None | None \<Rightarrow> False)"

definition lists_chan :: "(uid \<times> user) list \<Rightarrow> uid \<Rightarrow> string \<Rightarrow> bool" where
  "lists_chan us uid key = (case map_of us uid of Some u \<Rightarrow> key \<in> set (joined_chans u) | None \<Rightarrow> False)"

definition chan_ok :: "string \<Rightarrow> channel \<Rightarrow> bool" where
  "chan_ok key c \<longleftrightarrow> distinct (map fst (members c)) \<and> to_ascii_lowercase (chan_name c) = key"

definition membership_ok :: "(uid \<times> user) list \<Rightarrow> (string \<times> channel) list \<Rightarrow> bool" where
  "membership_ok us cs \<longleftrightarrow>
     distinct (map fst us) \<and> distinct (map fst cs)
     \<and> (\<forall>k c. map_of cs k = Some c \<longrightarrow> chan_ok k c)
     \<and> (\<forall>i u. map_of us i = Some u \<longrightarrow> distinct (joined_chans u))
     \<and> (\<forall>i k. on_chan cs i k = lists_chan us i k)"

definition all_alive :: "(string \<times> channel) list \<Rightarrow> bool" where
  "all_alive cs \<longleftrightarrow> (\<forall>k c. map_of cs k = Some c \<longrightarrow> keep_alive c)"

definition chan_inv :: "server \<Rightarrow> bool" where
  "chan_inv s \<longleftrightarrow> membership_ok (users s) (channels s) \<and> all_alive (channels s)"

lemma is_member_on_chan: "is_member s uid key = on_chan (channels s) uid key"
  by (simp add: is_member_def on_chan_def)

lemma membership_okI:
  assumes "distinct (map fst us)" and "distinct (map fst cs)"
    and "\<And>k c. map_of cs k = Some c \<Longrightarrow> chan_ok k c"
    and "\<And>i u. map_of us i = Some u \<Longrightarrow> distinct (joined_chans u)"
    and "\<And>i k. on_chan cs i k = lists_chan us i k"
  shows "membership_ok us cs"
  using assms by (simp add: membership_ok_def)

lemma membership_okD:
  assumes "membership_ok us cs"
  shows "distinct (map fst us)" "distinct (map fst cs)"
    "\<And>k c. map_of cs k = Some c \<Longrightarrow> chan_ok k c"
    "\<And>i u. map_of us i = Some u \<Longrightarrow> distinct (joined_chans u)"
    "\<And>i k. on_chan cs i k = lists_chan us i k"
  using assms by (simp_all add: membership_ok_def)

section \<open>Changes that keep it\<close>

text \<open>Changing a channel without touching its member keys or its name.\<close>

lemma membership_update_chan:
  assumes "membership_ok us cs" and "\<And>c. map fst (members (f c)) = map fst (members c)"
    and "\<And>c. to_ascii_lowercase (chan_name (f c)) = to_ascii_lowercase (chan_name c)"
  shows "membership_ok us (map_key key f cs)"
proof -
  note ok = membership_okD [OF assms(1)]
  have keys: "map_of (members (f c)) i \<noteq> None \<longleftrightarrow> map_of (members c) i \<noteq> None" for c i
    by (metis assms(2) list.set_map map_of_eq_None_iff)
  show ?thesis
  proof (rule membership_okI)
    show "chan_ok k c" if "map_of (map_key key f cs) k = Some c" for k c
      using that ok(3) assms(2,3) by (auto simp: map_of_map_key chan_ok_def split: if_splits)
    show "on_chan (map_key key f cs) i k = lists_chan us i k" for i k
      using ok(5) [of i k] keys by (auto simp: on_chan_def map_of_map_key split: option.splits)
  qed (use ok in auto)
qed

lemma membership_update_user:
  assumes "membership_ok us cs" and "\<And>u. joined_chans (f u) = joined_chans u"
  shows "membership_ok (map_key uid f us) cs"
proof -
  note ok = membership_okD [OF assms(1)]
  show ?thesis
  proof (rule membership_okI)
    show "distinct (joined_chans u)" if "map_of (map_key uid f us) i = Some u" for i u
      using that ok(4) assms(2) by (auto simp: map_of_map_key split: if_splits)
    show "on_chan cs i k = lists_chan (map_key uid f us) i k" for i k
      using ok(5) [of i k] assms(2) by (auto simp: lists_chan_def map_of_map_key split: option.splits)
  qed (use ok in auto)
qed

text \<open>Entering a user into a channel on both sides.\<close>

lemma membership_enter:
  assumes "membership_ok us cs" and "map_of us uid = Some u" and "map_of cs key = Some c0"
    and "\<And>c. members (f c) = AList.update uid m (members c)" and "\<And>c. chan_name (f c) = chan_name c"
    and "\<And>u. joined_chans (g u) = List.insert key (joined_chans u)"
  shows "membership_ok (map_key uid g us) (map_key key f cs)"
proof -
  note ok = membership_okD [OF assms(1)]
  show ?thesis
  proof (rule membership_okI)
    show "chan_ok k c" if "map_of (map_key key f cs) k = Some c" for k c
      using that ok(3) assms(4,5) by (auto simp: map_of_map_key chan_ok_def distinct_update split: if_splits)
    show "distinct (joined_chans v)" if "map_of (map_key uid g us) i = Some v" for i v
      using that ok(4) assms(6) by (auto simp: map_of_map_key split: if_splits)
    show "on_chan (map_key key f cs) i k = lists_chan (map_key uid g us) i k" for i k
      using ok(5) [of i k] assms(2-)
      by (auto simp: on_chan_def lists_chan_def hmap_simps split: option.splits if_splits)
  qed (use ok in auto)
qed

text \<open>Taking a user out of a channel on both sides.\<close>

lemma membership_leave:
  assumes "membership_ok us cs"
    and "\<And>c. members (f c) = AList.delete uid (members c)" and "\<And>c. chan_name (f c) = chan_name c"
    and "\<And>u. joined_chans (g u) = set_remove key (joined_chans u)"
  shows "membership_ok (map_key uid g us) (map_key key f cs)"
proof -
  note ok = membership_okD [OF assms(1)]
  show ?thesis
  proof (rule membership_okI)
    show "chan_ok k c" if "map_of (map_key key f cs) k = Some c" for k c
      using that ok(3) assms(2,3) by (auto simp: map_of_map_key chan_ok_def distinct_delete split: if_splits)
    show "distinct (joined_chans v)" if "map_of (map_key uid g us) i = Some v" for i v
      using that ok(4) assms(4) by (auto simp: map_of_map_key split: if_splits)
    show "on_chan (map_key key f cs) i k = lists_chan (map_key uid g us) i k" for i k
      using ok(5) [of i k] assms(2-)
      by (auto simp: on_chan_def lists_chan_def hmap_simps split: option.splits if_splits)
  qed (use ok in auto)
qed

text \<open>Dropping channels without local members.\<close>

lemma membership_retain:
  assumes "membership_ok us cs" and "\<And>c. \<not> P c \<Longrightarrow> members c = []"
  shows "membership_ok us (retain_vals P cs)"
proof -
  note ok = membership_okD [OF assms(1)]
  show ?thesis
  proof (rule membership_okI)
    show "chan_ok k c" if "map_of (retain_vals P cs) k = Some c" for k c
      using that ok(2,3) by (auto simp: map_of_retain split: option.splits if_splits)
    have "on_chan (retain_vals P cs) i k = on_chan cs i k" for i k
      using ok(2) assms(2) by (cases "map_of cs k") (auto simp: on_chan_def map_of_retain)
    then show "on_chan (retain_vals P cs) i k = lists_chan us i k" for i k
      using ok(5) by simp
  qed (use ok in auto)
qed

lemma membership_new_chan:
  assumes "membership_ok us cs" and "map_of cs key = None" and "members c = []"
    and "to_ascii_lowercase (chan_name c) = key"
  shows "membership_ok us (AList.update key c cs)"
proof -
  note ok = membership_okD [OF assms(1)]
  show ?thesis
  proof (rule membership_okI)
    show "chan_ok k d" if "map_of (AList.update key c cs) k = Some d" for k d
      using that ok(3) assms(3,4) by (auto simp: hmap_simps chan_ok_def split: if_splits)
    show "on_chan (AList.update key c cs) i k = lists_chan us i k" for i k
      using ok(5) [of i k] assms(2,3) by (auto simp: on_chan_def hmap_simps split: option.splits)
  qed (use ok in \<open>auto simp: distinct_update\<close>)
qed

lemma keep_alive_not: "\<not> keep_alive c \<Longrightarrow> members c = []"
  by (auto simp: keep_alive_def is_empty_chan_def)

lemma all_alive_retain: "distinct (map fst cs) \<Longrightarrow> all_alive (retain_vals keep_alive cs)"
  by (auto simp: all_alive_def map_of_retain split: option.splits if_splits)

lemma all_alive_update_chan:
  assumes "all_alive cs" and "\<And>c. keep_alive c \<Longrightarrow> keep_alive (f c)"
  shows "all_alive (map_key key f cs)"
  using assms by (auto simp: all_alive_def map_of_map_key split: if_splits)

lemma chan_inv_cong: "users s' = users s \<Longrightarrow> channels s' = channels s \<Longrightarrow> chan_inv s' = chan_inv s"
  by (simp add: chan_inv_def)

lemma chan_inv_output: "output_op f \<Longrightarrow> chan_inv (f s) = chan_inv s"
  by (rule chan_inv_cong) (simp_all add: output_op.frame)

lemma chan_inv_update_chan:
  assumes "chan_inv s" and "\<And>c. map fst (members (f c)) = map fst (members c)"
    and "\<And>c. to_ascii_lowercase (chan_name (f c)) = to_ascii_lowercase (chan_name c)"
    and "\<And>c. keep_alive c \<Longrightarrow> keep_alive (f c)"
  shows "chan_inv (update_chan key f s)"
  using assms membership_update_chan [of "users s" "channels s" f key] all_alive_update_chan [of "channels s" f key]
  by (simp add: chan_inv_def)

lemma chan_inv_drop:
  assumes "membership_ok (users s) (channels s)"
  shows "chan_inv (drop_membership uid key s)"
proof -
  have ok: "membership_ok (map_key uid (\<lambda>u. u\<lparr>joined_chans := set_remove key (joined_chans u)\<rparr>) (users s))
      (map_key key (\<lambda>c. c\<lparr>members := AList.delete uid (members c)\<rparr>) (channels s))"
    by (rule membership_leave [OF assms]) simp_all
  then show ?thesis
    using membership_retain [OF ok keep_alive_not] all_alive_retain membership_okD(2) [OF ok]
    by (simp add: chan_inv_def drop_membership_def)
qed

lemma not_on_after_drop: "\<not> is_member (drop_membership uid key s) uid key" if "distinct (map fst (channels s))"
  using that by (auto simp: drop_membership_def is_member_def hmap_simps split: option.splits if_splits)

section \<open>Leaving\<close>

lemma force_part_inv:
  assumes "chan_inv s"
  shows "\<exists>s'. force_part uid chan reason s = Some s' \<and> chan_inv s' \<and> \<not> is_member s' uid (to_ascii_lowercase chan)"
proof (cases "is_member s uid (to_ascii_lowercase chan)")
  case True
  let ?key = "to_ascii_lowercase chan"
  have "lists_chan (users s) uid ?key"
    using True assms by (simp add: chan_inv_def is_member_on_chan membership_ok_def)
  then obtain u where u: "map_of (users s) uid = Some u" by (auto simp: lists_chan_def split: option.splits)
  let ?line = "'':'' @ user_prefix u @ '' PART '' @ chan @ '' :'' @ reason"
  let ?s1 = "propagate_part uid chan reason (if is_hidden s uid ?key then send uid ?line s else to_channel ?key ?line None s)"
  have same: "users ?s1 = users s" "channels ?s1 = channels s" by simp_all
  have "force_part uid chan reason s = Some (drop_membership uid ?key ?s1)"
    using True u by (simp add: force_part_def Let_def)
  moreover have "membership_ok (users ?s1) (channels ?s1)" using assms same by (simp add: chan_inv_def)
  ultimately show ?thesis
    using chan_inv_drop not_on_after_drop membership_okD(2) by metis
qed (use assms in \<open>simp add: force_part_def\<close>)

lemma part_inv:
  assumes "chan_inv s"
  shows "chan_inv (snd (part uid target reason s))"
proof (cases "map_of (users s) uid")
  case (Some u)
  let ?key = "to_ascii_lowercase target" and ?line = "part_line (user_prefix u) target reason"
  let ?s1 = "propagate_part uid target reason
    (if is_hidden s uid ?key then send uid ?line s else to_channel_vis ?key ?line uid s)"
  have "chan_inv (drop_membership uid ?key ?s1)"
    by (rule chan_inv_drop) (use assms in \<open>simp add: chan_inv_def\<close>)
  then show ?thesis using Some assms by (simp add: part_def Let_def chan_inv_def)
qed (use assms in \<open>simp add: part_def\<close>)

lemma flood_kick_inv:
  assumes "chan_inv s"
  shows "chan_inv (flood_kick uid key ban s)"
proof (cases "map_of (users s) uid")
  case (Some u)
  have "chan_inv (update_chan key (\<lambda>c. if list_ex (\<lambda>b. mask b = m) (bans c) then c
      else c\<lparr>bans := bans c @ [\<lparr>mask = m, setter = srv_name s, ban_ts = clock s, expires = None\<rparr>]\<rparr>) s)" for m
    by (rule chan_inv_update_chan [OF assms]) (simp_all add: keep_alive_def is_empty_chan_def)
  then show ?thesis
    using Some assms by (auto simp: flood_kick_def Let_def chan_inv_def intro!: chan_inv_drop [unfolded chan_inv_def])
qed (use assms in \<open>simp add: flood_kick_def\<close>)

section \<open>Joining\<close>

text \<open>What the checks of a join may do to the state.\<close>

definition frame :: "server \<Rightarrow> server \<Rightarrow> bool" where
  "frame s s1 \<longleftrightarrow> users s1 = users s \<and> in_redirect s1 = in_redirect s \<and> redir_depth s1 = redir_depth s
     \<and> (chan_inv s \<longrightarrow> chan_inv s1)"

fun step_ok :: "server \<Rightarrow> join_step \<Rightarrow> bool" where
  "step_ok s (Done s1) = frame s s1"
| "step_ok s (DenyHop s1 t) =
     (redir_depth s < MAX_REDIR \<and> redir_depth s1 = Suc (redir_depth s) \<and> in_redirect s1 = in_redirect s
      \<and> users s1 = users s \<and> (chan_inv s \<longrightarrow> chan_inv s1))"
| "step_ok s (LinkHop s1 t) = (\<not> in_redirect s \<and> frame s s1)"
| "step_ok s (Go ov s1) = frame s s1"

lemma frame_refl [simp]: "frame s s"
  by (simp add: frame_def)

lemma frame_output: "output_op f \<Longrightarrow> frame s (f s)"
  by (simp add: frame_def output_op.frame chan_inv_output)

lemma frame_numeric [simp]: "frame s (numeric uid code rest s)"
  by (rule frame_output) (rule numeric.output_op_axioms)

lemma step_ok_trans: "frame s s1 \<Longrightarrow> step_ok s1 r \<Longrightarrow> step_ok s r"
  by (cases r) (auto simp: frame_def)

lemma step_ok_bind:
  assumes "step_ok s r" and "\<And>ov s1. frame s s1 \<Longrightarrow> step_ok s1 (f ov s1)"
  shows "step_ok s (step_bind r f)"
  using assms by (cases r) (auto intro: step_ok_trans)

lemma restrict_ok [simp]: "step_ok s (restrict uid can hit code msg ov s)"
  by (simp add: restrict_def)

lemma denychans_ok [simp]: "step_ok s (denychans_intercept E uid name oper_user ov s)"
  by (auto simp: denychans_intercept_def Let_def MAX_REDIR_def chan_inv_def split: option.split)

lemma restrictchans_ok [simp]: "step_ok s (restrictchans_intercept E uid name may ov s)"
  by (simp add: restrictchans_intercept_def)

lemma channames_ok [simp]: "step_ok s (channames_intercept uid name ov s)"
  by (simp add: channames_intercept_def split: option.split)

lemma join_gate_ok: "step_ok s (join_gate E uid name s)"
proof -
  have "step_ok s (step_bind (denychans_intercept E uid name (is_oper s uid) False s) (\<lambda>ov s.
          step_bind (restrictchans_intercept E uid name (has_priv s uid ''channels/restricted-create'') ov s)
            (channames_intercept uid name)))"
    by (intro step_ok_bind denychans_ok restrictchans_ok channames_ok)
  then show ?thesis by (simp add: join_gate_def Let_def split: option.split)
qed

lemma check_ban_ok: "step_ok s (check_ban E uid can name ch ov s)"
  by (simp add: check_ban_def Let_def split: option.split)

lemma check_access_ok: "step_ok s (check_access E uid can name ch ov s)"
  unfolding check_access_def
  by (intro step_ok_bind restrict_ok) (simp split: option.split)

lemma check_limit_ok: "step_ok s (check_limit uid can name ch ov s)"
  by (simp add: check_limit_def Let_def split: option.split)

lemma joinflood_frame: "frame s (snd (joinflood_check key s))"
proof -
  have "chan_inv (update_chan key f s)" if "chan_inv s"
    and "f \<in> {\<lambda>c. c\<lparr>joinflood_until := t, joinflood_hits := []\<rparr>, \<lambda>c. c\<lparr>joinflood_hits := v\<rparr>}" for f t v
    by (rule chan_inv_update_chan [OF that(1)]) (use that(2) in \<open>auto simp: keep_alive_def is_empty_chan_def\<close>)
  then show ?thesis
    by (auto simp: joinflood_check_def Let_def frame_def split: option.split)
qed

lemma frame_trans: "frame s s1 \<Longrightarrow> frame s1 s2 \<Longrightarrow> frame s s2"
  by (auto simp: frame_def)

lemma check_joinflood_ok: "step_ok s (check_joinflood uid can name ov s)"
  using joinflood_frame [of s "to_ascii_lowercase name"]
  by (auto simp: check_joinflood_def Let_def intro: frame_trans split: prod.split)

lemma join_checks_ok: "step_ok s (join_checks E uid name key_arg s)"
proof -
  have "step_ok s (case map_of (channels s) key of
           None \<Rightarrow> Go ov s
         | Some ch \<Rightarrow>
             step_bind (check_key uid can name key_arg ch ov s) (\<lambda>ov s.
             step_bind (check_ban E uid can name ch ov s) (\<lambda>ov s.
             step_bind (check_access E uid can name ch ov s) (\<lambda>ov s.
               check_limit uid can name ch ov s))))" for s key can ov
    by (cases "map_of (channels s) key")
      (simp_all add: check_key_def step_ok_bind check_ban_ok check_access_ok check_limit_ok)
  then show ?thesis
    unfolding join_checks_def Let_def
    by (intro step_ok_bind join_gate_ok check_joinflood_ok)
qed

lemma step_bind_GoD: "step_bind r f = Go ov s \<Longrightarrow> \<exists>ov' s'. r = Go ov' s' \<and> f ov' s' = Go ov s"
  by (cases r) auto

text \<open>A join that passes the checks is by a known user who is not yet on the channel.\<close>

lemma join_checks_GoD:
  assumes "join_checks E uid name key_arg s = Go ov s1"
  obtains u where "map_of (users s) uid = Some u" and "to_ascii_lowercase name \<notin> set (joined_chans u)"
proof -
  obtain ov' s' where "join_gate E uid name s = Go ov' s'"
    using assms step_bind_GoD unfolding join_checks_def Let_def by blast
  then show ?thesis using that
    by (auto simp: join_gate_def Let_def split: if_splits option.splits)
qed

lemma update_keep_alive: "members c \<noteq> [] \<Longrightarrow> keep_alive c"
  by (simp add: keep_alive_def is_empty_chan_def)

lemma alist_update_neq_Nil [simp]: "AList.update k v m \<noteq> []"
  by (cases m) auto

lemma join_enter_inv:
  assumes "chan_inv s" and "map_of (users s) uid = Some u"
  shows "chan_inv (join_enter uid name s)"
proof -
  let ?key = "to_ascii_lowercase name"
  let ?new = "map_of (channels s) ?key = None"
  let ?m = "default_member\<lparr>pfx_bits := (if ?new then PFX_OP else 0), joined := clock s\<rparr>"
  define s1 where "s1 = (if ?new then s\<lparr>channels := AList.update ?key (new_channel (clock s) name) (channels s)\<rparr> else s)"
  let ?f = "\<lambda>c. c\<lparr>members := AList.update uid ?m (members c),
                 invites := set_remove uid (invites c), recent_kicks := AList.delete uid (recent_kicks c)\<rparr>"
  let ?g = "\<lambda>u. u\<lparr>joined_chans := List.insert ?key (joined_chans u), invited := set_remove ?key (invited u)\<rparr>"
  have res: "join_enter uid name s = update_user uid ?g (update_chan ?key ?f s1)"
    by (simp add: join_enter_def s1_def Let_def)
  have users: "users s1 = users s" by (simp add: s1_def)
  have "membership_ok (users s) (channels s)" using assms(1) by (simp add: chan_inv_def)
  then have ok1: "membership_ok (users s1) (channels s1)"
    unfolding users by (auto simp: s1_def new_channel_def intro!: membership_new_chan)
  have "map_of (channels s1) ?key \<noteq> None" by (simp add: s1_def hmap_simps)
  then obtain c0 where c0: "map_of (channels s1) ?key = Some c0" by blast
  have "membership_ok (map_key uid ?g (users s1)) (map_key ?key ?f (channels s1))"
    by (rule membership_enter [OF ok1 _ c0]) (use assms(2) users in simp_all)
  moreover have "all_alive (map_key ?key ?f (channels s1))"
    using assms(1) by (auto simp: all_alive_def map_of_map_key s1_def hmap_simps chan_inv_def
        intro: update_keep_alive split: if_splits)
  ultimately show ?thesis by (simp add: res chan_inv_def)
qed

lemma join_enter_sel [simp]:
  "in_redirect (join_enter uid name s) = in_redirect s" "redir_depth (join_enter uid name s) = redir_depth s"
  by (simp_all add: join_enter_def Let_def)

lemma join_commit_core:
  assumes "map_of (users s0) uid = Some u"
  shows "(chan_inv s0 \<longrightarrow> chan_inv (join_commit E uid name ov s0))
     \<and> in_redirect (join_commit E uid name ov s0) = in_redirect s0
     \<and> redir_depth (join_commit E uid name ov s0) = redir_depth s0"
proof -
  let ?key = "to_ascii_lowercase name"
  define s where "s = (if ov then
     snotice_c E ''v'' (trf (catalog_of s0) ''{0} used oper override to join {1}'' [nick_of s0 uid, name]) s0 else s0)"
  define s2 where "s2 = (if map_of (channels s) ?key = None
      \<and> (conf_bool (join_enter uid name s) ''chancreate'' False \<or> conf_bool (join_enter uid name s) ''announce_channels'' False)
     then snotice_c E ''j'' (trf (catalog_of (join_enter uid name s)) ''{0} created channel {1}''
            [nick_of (join_enter uid name s) uid, name]) (join_enter uid name s)
     else join_enter uid name s)"
  have s: "chan_inv s = chan_inv s0" "users s = users s0" "in_redirect s = in_redirect s0" "redir_depth s = redir_depth s0"
    by (simp_all add: s_def chan_inv_def)
  have s2: "chan_inv s0 \<longrightarrow> chan_inv s2" "in_redirect s2 = in_redirect s0" "redir_depth s2 = redir_depth s0"
    using join_enter_inv [of s uid u name] assms s by (auto simp: s2_def chan_inv_def)
  have hide: "chan_inv (update_member ?key uid (\<lambda>m. m\<lparr>hidden := True\<rparr>) s2)" if "chan_inv s2"
    unfolding update_member_def
    by (rule chan_inv_update_chan [OF that]) (auto simp: keep_alive_def is_empty_chan_def map_key_def)
  show ?thesis
    unfolding join_commit_def Let_def s_def [symmetric] s2_def [symmetric]
    using s2 hide by (auto simp: chan_inv_def split: option.split)
qed

lemma chan_inv_flags [simp]:
  "chan_inv (s\<lparr>redir_depth := d\<rparr>) = chan_inv s" "chan_inv (s\<lparr>in_redirect := b\<rparr>) = chan_inv s"
  "chan_inv (s\<lparr>events := es\<rparr>) = chan_inv s" "chan_inv (s\<lparr>mode_sudo := b\<rparr>) = chan_inv s"
  by (simp_all add: chan_inv_def)

lemma join_fuel_inv:
  assumes "(MAX_REDIR - redir_depth s) + (if in_redirect s then 0 else 1) < n"
  shows "\<exists>s'. join_fuel n E uid name key_arg s = Some s' \<and> in_redirect s' = in_redirect s
     \<and> redir_depth s' = redir_depth s \<and> (chan_inv s \<longrightarrow> chan_inv s')"
  using assms
proof (induction n arbitrary: name key_arg s)
  case (Suc n)
  note ok = join_checks_ok [of s E uid name key_arg]
  show ?case
  proof (cases "join_checks E uid name key_arg s")
    case (Done s1)
    then show ?thesis using ok by (simp add: frame_def)
  next
    case (DenyHop s1 t)
    then have "(MAX_REDIR - redir_depth s1) + (if in_redirect s1 then 0 else 1) < n"
      using ok Suc.prems by auto
    from Suc.IH [OF this, of t None] obtain s2 where "join_fuel n E uid t None s1 = Some s2"
      "in_redirect s2 = in_redirect s1" "redir_depth s2 = redir_depth s1" "chan_inv s1 \<longrightarrow> chan_inv s2" by blast
    then show ?thesis using DenyHop ok by simp
  next
    case (LinkHop s1 t)
    then have "(MAX_REDIR - redir_depth (s1\<lparr>in_redirect := True\<rparr>)) + (if in_redirect (s1\<lparr>in_redirect := True\<rparr>) then 0 else 1) < n"
      using ok Suc.prems by (auto simp: frame_def)
    from Suc.IH [OF this, of t None] obtain s2 where "join_fuel n E uid t None (s1\<lparr>in_redirect := True\<rparr>) = Some s2"
      "redir_depth s2 = redir_depth s1" "chan_inv s1 \<longrightarrow> chan_inv s2" by auto
    then show ?thesis using LinkHop ok by (simp add: frame_def)
  next
    case (Go ov s1)
    then obtain u where "map_of (users s) uid = Some u" by (rule join_checks_GoD)
    then show ?thesis using Go ok join_commit_core [of s1 uid u E name ov] by (auto simp: frame_def)
  qed
qed simp

lemma join_ok:
  "join_fuel 10 E uid name key_arg s = Some (join E uid name key_arg s)"
  "in_redirect (join E uid name key_arg s) = in_redirect s"
  "redir_depth (join E uid name key_arg s) = redir_depth s"
  "chan_inv s \<Longrightarrow> chan_inv (join E uid name key_arg s)"
proof -
  have "(MAX_REDIR - redir_depth s) + (if in_redirect s then 0 else 1) < 10"
    unfolding MAX_REDIR_def by (rule order.strict_trans1 [of _ 9]) (auto split: if_split)
  from join_fuel_inv [OF this, of E uid name key_arg]
  obtain s' where "join_fuel 10 E uid name key_arg s = Some s'" "in_redirect s' = in_redirect s"
    "redir_depth s' = redir_depth s" "chan_inv s \<longrightarrow> chan_inv s'" by blast
  then show "join_fuel 10 E uid name key_arg s = Some (join E uid name key_arg s)"
    "in_redirect (join E uid name key_arg s) = in_redirect s"
    "redir_depth (join E uid name key_arg s) = redir_depth s"
    "chan_inv s \<Longrightarrow> chan_inv (join E uid name key_arg s)"
    by (simp_all add: join_def)
qed

section \<open>Renaming\<close>

lemma fold_update_user:
  "users (fold (\<lambda>m. update_user m g) ids s) = fold (\<lambda>m. map_key m g) ids (users s)
   \<and> channels (fold (\<lambda>m. update_user m g) ids s) = channels s"
  by (induction ids arbitrary: s) simp_all

lemma map_of_fold_map_key:
  "distinct ids \<Longrightarrow>
     map_of (fold (\<lambda>m. map_key m g) ids us) i = (if i \<in> set ids then map_option g (map_of us i) else map_of us i)"
  by (induction ids arbitrary: us) (auto simp: map_of_map_key)

lemma keys_fold_map_key [simp]: "map fst (fold (\<lambda>m. map_key m g) ids us) = map fst us"
  by (induction ids arbitrary: us) simp_all

lemma membership_move:
  assumes "membership_ok us cs" and "map_of cs oldkey = Some ch" and "map_of cs newkey = None"
    and "members ch' = members ch" and "to_ascii_lowercase (chan_name ch') = newkey"
    and "\<And>u. joined_chans (g u) = List.insert newkey (set_remove oldkey (joined_chans u))"
  shows "membership_ok (fold (\<lambda>m. map_key m g) (map fst (members ch)) us)
           (AList.update newkey ch' (AList.delete oldkey cs))"
proof -
  note ok = membership_okD [OF assms(1)]
  have neq: "newkey \<noteq> oldkey" using assms(2,3) by auto
  have dist: "distinct (map fst (members ch))" using ok(3) assms(2) by (simp add: chan_ok_def)
  note us' = map_of_fold_map_key [OF dist, of g us]
  have mem: "map_of (members ch) i \<noteq> None \<longleftrightarrow> i \<in> set (map fst (members ch))" for i
    by (simp add: map_of_eq_None_iff)
  have old: "lists_chan us i oldkey \<longleftrightarrow> i \<in> set (map fst (members ch))" for i
    using ok(5) [of i oldkey] mem [of i] assms(2) by (simp add: on_chan_def)
  have new: "\<not> lists_chan us i newkey" for i
    using ok(5) [of i newkey] assms(3) by (simp add: on_chan_def)
  show ?thesis
  proof (rule membership_okI)
    show "distinct (map fst (AList.update newkey ch' (AList.delete oldkey cs)))"
      using ok(2) by (simp add: distinct_update distinct_delete)
    show "chan_ok k c" if "map_of (AList.update newkey ch' (AList.delete oldkey cs)) k = Some c" for k c
      using that ok(3) assms(4,5) dist by (auto simp: hmap_simps chan_ok_def split: if_splits)
    show "distinct (joined_chans u)" if "map_of (fold (\<lambda>m. map_key m g) (map fst (members ch)) us) i = Some u" for i u
      using that ok(4) assms(6) by (auto simp: us' split: if_splits)
    show "on_chan (AList.update newkey ch' (AList.delete oldkey cs)) i k
        = lists_chan (fold (\<lambda>m. map_key m g) (map fst (members ch)) us) i k" for i k
    proof (cases "k = newkey \<or> k = oldkey")
      case True
      then show ?thesis
        using old [of i] new [of i] mem [of i] neq assms(4,6)
        by (auto simp: on_chan_def lists_chan_def us' hmap_simps split: option.splits)
    next
      case False
      then show ?thesis
        using ok(5) [of i k] assms(6) by (auto simp: on_chan_def lists_chan_def us' hmap_simps split: option.splits)
    qed
  qed (use ok in auto)
qed

lemma rename_notify_frame:
  "core (fold (\<lambda>m s'. if (case map_of (users s') m of Some u \<Rightarrow> has_cap ''draft/channel-rename'' u | None \<Rightarrow> False)
                        then send m renline s'
                        else if \<not> case_only then emulate_rename_join m oldname newname newkey reason s' else s') ms s)
   = core s"
  by (rule core_fold) simp

lemma rename_channel_inv:
  assumes "chan_inv s"
  shows "chan_inv (snd (rename_channel oldkey newname src reason s))"
proof (cases "map_of (channels s) oldkey")
  case (Some ch)
  let ?newkey = "to_ascii_lowercase newname"
  have ok: "membership_ok (users s) (channels s)" and alive: "all_alive (channels s)"
    using assms by (simp_all add: chan_inv_def)
  define s1 where "s1 = (if ?newkey = oldkey then update_chan oldkey (\<lambda>c. c\<lparr>chan_name := newname\<rparr>) s
                      else move_channel oldkey newname ch s)"
  have "chan_inv s1" if free: "\<not> (?newkey \<noteq> oldkey \<and> map_of (channels s) ?newkey \<noteq> None)"
  proof (cases "?newkey = oldkey")
    case True
    have "membership_ok (users s) (map_key oldkey (\<lambda>c. c\<lparr>chan_name := newname\<rparr>) (channels s))"
    proof (rule membership_okI)
      show "chan_ok k c" if "map_of (map_key oldkey (\<lambda>c. c\<lparr>chan_name := newname\<rparr>) (channels s)) k = Some c" for k c
        using that True membership_okD(3) [OF ok] by (auto simp: map_of_map_key chan_ok_def split: if_splits)
      show "on_chan (map_key oldkey (\<lambda>c. c\<lparr>chan_name := newname\<rparr>) (channels s)) i k = lists_chan (users s) i k" for i k
        using membership_okD(5) [OF ok, of i k] by (auto simp: on_chan_def map_of_map_key split: option.splits)
    qed (use membership_okD [OF ok] in auto)
    then show ?thesis
      using True alive by (auto simp: s1_def chan_inv_def keep_alive_def is_empty_chan_def intro!: all_alive_update_chan)
  next
    case False
    let ?g = "\<lambda>u. u\<lparr>joined_chans := List.insert ?newkey (set_remove oldkey (joined_chans u))\<rparr>"
    have "membership_ok (fold (\<lambda>m. map_key m ?g) (map fst (members ch)) (users s))
        (AList.update ?newkey (ch\<lparr>chan_name := newname\<rparr>) (AList.delete oldkey (channels s)))"
      by (rule membership_move [OF ok Some]) (use False free in simp_all)
    moreover have "all_alive (AList.update ?newkey (ch\<lparr>chan_name := newname\<rparr>) (AList.delete oldkey (channels s)))"
      using alive Some by (auto simp: all_alive_def hmap_simps keep_alive_def is_empty_chan_def split: if_splits)
    ultimately show ?thesis
      using False fold_update_user by (simp add: s1_def move_channel_def rekey_channel_state_def chan_inv_def Let_def)
  qed
  then show ?thesis
    using Some assms core_eqD [OF rename_notify_frame]
    by (auto simp: rename_channel_def Let_def s1_def chan_inv_def)
qed (use assms in \<open>simp add: rename_channel_def\<close>)


section \<open>Reveals, floods and purges\<close>

lemma reveal_member_inv: "chan_inv s \<Longrightarrow> chan_inv (reveal_member uid key s)"
proof -
  assume inv: "chan_inv s"
  let ?s1 = "update_member key uid (\<lambda>m. m\<lparr>hidden := False\<rparr>) s"
  have "chan_inv ?s1"
    unfolding update_member_def
    by (rule chan_inv_update_chan [OF inv]) (auto simp: keep_alive_def is_empty_chan_def map_key_def)
  moreover have "chan_inv (fold (\<lambda>m s'. if m = uid then s' else if aud \<and> rank ?s1 m key < RANK_OP then s'
      else send_join u name m s') ms ?s1) = chan_inv ?s1" for aud u name ms
    by (rule chan_inv_cong; rule core_eqD; rule core_fold) simp_all
  ultimately show ?thesis
    using inv by (simp add: reveal_member_def Let_def split: option.split)
qed

lemma messageflood_inv: "chan_inv s \<Longrightarrow> chan_inv (snd (messageflood_hit uid key s))"
  by (auto simp: messageflood_hit_def Let_def keep_alive_def is_empty_chan_def
      intro!: chan_inv_update_chan split: option.split)

lemma nickflood_inv: "chan_inv s \<Longrightarrow> chan_inv (snd (nickflood_blocked uid s))"
proof -
  have step: "chan_inv (snd acc) \<Longrightarrow> chan_inv (snd (nickflood_step dur key acc))" for dur key acc
    by (auto simp: nickflood_step_def Let_def keep_alive_def is_empty_chan_def
        intro!: chan_inv_update_chan split: option.split prod.split)
  have "chan_inv (snd acc) \<Longrightarrow> chan_inv (snd (fold (nickflood_step dur) keys acc))" for dur keys acc
  proof (induction keys arbitrary: acc)
    case (Cons k keys)
    from Cons.IH [OF step [OF Cons.prems]] show ?case by simp
  qed simp
  then show "chan_inv s \<Longrightarrow> ?thesis" by (simp add: nickflood_blocked_def)
qed

lemma purge_tbans_inv: "chan_inv s \<Longrightarrow> chan_inv (purge_tbans s)"
proof -
  have step: "chan_inv s \<Longrightarrow> chan_inv (purge_tban e s)" for e s
  proof -
    assume inv: "chan_inv s"
    obtain key name m where e: "e = (key, name, m)" by (cases e)
    have "chan_inv (update_chan key (\<lambda>c. c\<lparr>bans := filter (\<lambda>b. mask b \<noteq> m) (bans c)\<rparr>) s)"
      by (rule chan_inv_update_chan [OF inv]) (simp_all add: keep_alive_def is_empty_chan_def)
    then show ?thesis by (simp add: e purge_tban_def Let_def chan_inv_def)
  qed
  have "chan_inv s \<Longrightarrow> chan_inv (fold purge_tban es s)" for es
    by (induction es arbitrary: s) (auto intro: step)
  then show "chan_inv s \<Longrightarrow> ?thesis" by (simp add: purge_tbans_def)
qed

lemma map_of_map_vals: "map_of (map (\<lambda>(k, v). (k, f v)) m) k = map_option f (map_of m k)"
  by (induction m) auto

lemma purge_flood_inv: "chan_inv s \<Longrightarrow> chan_inv (purge_flood_state s)"
proof -
  assume inv: "chan_inv s"
  define f :: "channel \<Rightarrow> channel" where "f = (\<lambda>ch. ch\<lparr>msgflood_hits := filter (\<lambda>(u, _). map_of (members ch) u \<noteq> None) (msgflood_hits ch),
                 recent_kicks :=
                   (let window = (case kicknorejoin (modes ch) of Some w \<Rightarrow> w | None \<Rightarrow> 0) in
                    filter (\<lambda>(_, ts). window > 0 \<and> clock s - ts < window) (recent_kicks ch))\<rparr>)"
  have chans: "channels (purge_flood_state s) = map (\<lambda>(k, v). (k, f v)) (channels s)"
    by (simp add: purge_flood_state_def f_def)
  have users_purge: "users (purge_flood_state s) = users s" by (simp add: purge_flood_state_def)
  have f: "members (f c) = members c" "chan_name (f c) = chan_name c" "keep_alive (f c) = keep_alive c" for c
    by (simp_all add: f_def keep_alive_def is_empty_chan_def)
  have ok': "membership_ok (users s) (channels s)" using inv by (simp add: chan_inv_def)
  note ok = membership_okD [OF ok']
  have "membership_ok (users s) (map (\<lambda>(k, v). (k, f v)) (channels s))"
  proof (rule membership_okI)
    show "distinct (map fst (map (\<lambda>(k, v). (k, f v)) (channels s)))"
      using ok(2) by (simp add: comp_def case_prod_unfold)
    show "chan_ok k c" if "map_of (map (\<lambda>(k, v). (k, f v)) (channels s)) k = Some c" for k c
      using that ok(3) by (auto simp: map_of_map_vals chan_ok_def f)
    have "on_chan (map (\<lambda>(k, v). (k, f v)) (channels s)) i k = on_chan (channels s) i k" for i k
      by (simp add: on_chan_def map_of_map_vals f split: option.split)
    then show "on_chan (map (\<lambda>(k, v). (k, f v)) (channels s)) i k = lists_chan (users s) i k" for i k
      using ok(5) by simp
  qed (use ok in auto)
  then show ?thesis
    using inv f unfolding chan_inv_def chans by (auto simp: all_alive_def map_of_map_vals users_purge)
qed

section \<open>Properties\<close>

lemma lowercase_samples:
  "to_ascii_lowercase ''#a'' = ''#a''" "to_ascii_lowercase ''#B'' = ''#b''"
  by code_simp+

lemma sample_inv: "chan_inv sample_server"
  by (simp add: lowercase_samples chan_inv_def membership_ok_def all_alive_def on_chan_def lists_chan_def chan_ok_def
      keep_alive_def is_empty_chan_def sample_defs split: if_splits option.splits)

text \<open>C21: A forced part never panics on a consistent state: the member it removes is a known user.
  It keeps the membership invariant, and afterwards the user is not on the channel.\<close>

theorem force_part_ok:
  assumes "chan_inv s"
  shows "\<exists>s'. force_part uid chan reason s = Some s' \<and> chan_inv s' \<and> \<not> is_member s' uid (to_ascii_lowercase chan)"
  using assms by (rule force_part_inv)

theorem force_part_ok_witness:
  "\<exists>s'. force_part 1 ''#A'' ''bye'' sample_server = Some s' \<and> chan_inv s' \<and> \<not> is_member s' 1 (to_ascii_lowercase ''#A'')"
  by (rule force_part_ok [OF sample_inv])

text \<open>C1: Joining always returns: no configuration of redirects (\<open>+L\<close>, ban redirects, \<open>badchan\<close>
  redirects, in any combination or loop) keeps \<open>join\<close> from coming back, and ten nested calls
  are the most it makes.  It keeps the membership
  invariant and leaves both redirect guards as it found them.\<close>

theorem join_returns:
  "join_fuel 10 E uid name key_arg s = Some (join E uid name key_arg s)
   \<and> in_redirect (join E uid name key_arg s) = in_redirect s
   \<and> redir_depth (join E uid name key_arg s) = redir_depth s
   \<and> (chan_inv s \<longrightarrow> chan_inv (join E uid name key_arg s))"
  using join_ok by auto

theorem join_returns_witness:
  "chan_inv (join sample_env 2 ''#b'' None sample_server)"
  using join_returns [of sample_env 2 "''#b''" None sample_server] sample_inv by blast



end
