(* ===== verification/UserIndexes.thy ===== *)
theory UserIndexes
  imports Users Membership
begin

text \<open>
  The derived tables agree with the user table.  Each invariant below relates one of them to the
  users; the theorems show that connecting, changing nick, the WATCH, MONITOR and ACCEPT edits,
  class changes and quitting keep them, so that the constant-time lookups of the server give what a
  scan of all users would.
\<close>

section \<open>Sums over the user table\<close>

definition tally :: "(user \<Rightarrow> nat) \<Rightarrow> (uid \<times> user) list \<Rightarrow> nat" where
  "tally w us = sum_list (map (\<lambda>(_, u). w u) us)"

lemma tally_simps [simp]: "tally w [] = 0" "tally w (p # us) = w (snd p) + tally w us"
  by (simp_all add: tally_def case_prod_unfold)

lemma tally_new: "map_of us uid = None \<Longrightarrow> tally w (AList.update uid u us) = tally w us + w u"
  by (induction us) (auto split: if_splits)

lemma tally_absent: "map_of us uid = None \<Longrightarrow> tally w (AList.delete uid us) = tally w us"
  by (induction us) (auto simp: AList.delete_eq split: if_splits)

lemma tally_delete:
  "distinct (map fst us) \<Longrightarrow> map_of us uid = Some u \<Longrightarrow> tally w us = tally w (AList.delete uid us) + w u"
proof (induction us)
  case (Cons p us)
  show ?case
  proof (cases "fst p = uid")
    case True
    then have "map_of us uid = None" using Cons.prems(1) by (simp add: map_of_eq_None_iff)
    then show ?thesis using True Cons.prems(2) tally_absent by (cases p) simp
  next
    case False
    then show ?thesis using Cons by (cases p) simp
  qed
qed simp

lemma map_key_absent: "map_of us uid = None \<Longrightarrow> map_key uid f us = us"
  by (induction us) (auto simp: map_key_def split: if_splits)

lemma tally_map_key:
  "distinct (map fst us) \<Longrightarrow> map_of us uid = Some u \<Longrightarrow>
     tally w (map_key uid f us) + w u = tally w us + w (f u)"
proof (induction us)
  case (Cons p us)
  show ?case
  proof (cases "fst p = uid")
    case True
    then have "map_key uid f us = us"
      using Cons.prems(1) by (intro map_key_absent) (simp add: map_of_eq_None_iff)
    then show ?thesis using True Cons.prems(2) by (cases p) (simp add: map_key_def)
  next
    case False
    then show ?thesis using Cons by (cases p) (simp add: map_key_def)
  qed
qed simp

lemma tally_map_key_same:
  "distinct (map fst us) \<Longrightarrow> (\<And>u. w (f u) = w u) \<Longrightarrow> tally w (map_key uid f us) = tally w us"
  using tally_map_key [of us uid _ w f] map_key_absent [of us uid f] by (cases "map_of us uid") auto

lemma tally_map: "tally w (map (\<lambda>(i, u). (i, f u)) us) = tally (\<lambda>u. w (f u)) us"
  by (induction us) auto

lemma tally_mono: "(\<And>u. w u \<le> w' u) \<Longrightarrow> tally w us \<le> tally w' us"
  by (induction us) (auto intro: add_mono)

lemma tally_zeroD: "tally w us = 0 \<Longrightarrow> map_of us i = Some u \<Longrightarrow> w u = 0"
  by (induction us) (auto split: if_splits)

lemma tally_zero: "tally (\<lambda>_. 0) us = 0"
  by (induction us) auto

lemma tally_add: "tally (\<lambda>u. w u + w' u) us = tally w us + tally w' us"
  by (induction us) auto

section \<open>The invariants\<close>

definition counts_ok ::
  "(uid \<times> user) list \<Rightarrow> (string \<times> nat) list \<Rightarrow> (string \<times> nat) list \<Rightarrow> ((string \<times> string) \<times> nat) list \<Rightarrow> bool" where
  "counts_ok us pi pc pic \<longleftrightarrow>
     counts_wf pi \<and> counts_wf pc \<and> counts_wf pic
     \<and> (\<forall>a. count_get pi a = tally (\<lambda>u. of_bool (ip u = a)) us)
     \<and> (\<forall>c. count_get pc c = tally (\<lambda>u. of_bool (conn_class u = Some c)) us)
     \<and> (\<forall>a c. count_get pic (a, c) = tally (\<lambda>u. of_bool (ip u = a \<and> conn_class u = Some c)) us)"

definition accepts_ok :: "(uid \<times> user) list \<Rightarrow> (string \<times> nat) list \<Rightarrow> bool" where
  "accepts_ok us acc \<longleftrightarrow>
     counts_wf acc \<and> (\<forall>n. tally (\<lambda>u. count_list (accept u) n) us \<le> count_get acc n)"

definition index_ok :: "(user \<Rightarrow> string list) \<Rightarrow> (uid \<times> user) list \<Rightarrow> (string \<times> uid list) list \<Rightarrow> bool" where
  "index_ok sel us idx \<longleftrightarrow>
     index_wf idx \<and> (\<forall>n i. index_has idx n i \<longleftrightarrow> (\<exists>u. map_of us i = Some u \<and> n \<in> set (sel u)))"

definition nicks_ok :: "(uid \<times> user) list \<Rightarrow> (string \<times> uid) list \<Rightarrow> bool" where
  "nicks_ok us idx \<longleftrightarrow>
     distinct (map fst idx)
     \<and> (\<forall>low i. map_of idx low = Some i
          \<longleftrightarrow> (\<exists>u. map_of us i = Some u \<and> nick u \<noteq> [] \<and> to_ascii_lowercase (nick u) = low))"

definition uuids_ok :: "(uid \<times> user) list \<Rightarrow> (string \<times> uid) list \<Rightarrow> bool" where
  "uuids_ok us idx \<longleftrightarrow>
     distinct (map fst idx) \<and> (\<forall>uu i. map_of idx uu = Some i \<longleftrightarrow> (\<exists>u. map_of us i = Some u \<and> uuid u = uu))"

text \<open>Only registered users are on channels, and the running count of the others is exact.\<close>

definition guard_ok :: "(uid \<times> user) list \<Rightarrow> nat \<Rightarrow> bool" where
  "guard_ok us n \<longleftrightarrow> n = tally (\<lambda>u. of_bool (\<not> registered u)) us
     \<and> (\<forall>i u. map_of us i = Some u \<longrightarrow> \<not> registered u \<longrightarrow> joined_chans u = [])"

definition user_inv :: "server \<Rightarrow> bool" where
  "user_inv s \<longleftrightarrow>
     chan_inv s \<and> counts_ok (users s) (per_ip s) (per_class s) (per_ip_class s)
     \<and> accepts_ok (users s) (accepted_nicks s) \<and> index_ok watch (users s) (watch_by s)
     \<and> index_ok monitor (users s) (monitor_by s) \<and> nicks_ok (users s) (nick_index s)
     \<and> uuids_ok (users s) (uuid_local s) \<and> guard_ok (users s) (unreg_count s)"

lemmas counts_laws = tab.cnt_inc tab.cnt_dec tab.wf_inc tab.wf_dec

text \<open>A change of the user table that keeps the fields an invariant reads keeps the invariant.  The
  changes are an edit of one user and an edit of all users.\<close>

definition edits :: "((uid \<times> user) list \<Rightarrow> (uid \<times> user) list) \<Rightarrow> (user \<Rightarrow> user) \<Rightarrow> bool" where
  "edits g f \<longleftrightarrow> (\<exists>uid. g = map_key uid f) \<or> g = map (\<lambda>(i, u). (i, f u))"

lemma edits_intros: "edits (map_key uid f) f" "edits (map (\<lambda>(i, u). (i, f u))) f"
  by (auto simp: edits_def)

lemma map_of_map_values: "map_of (map (\<lambda>(i, u). (i, f u)) us) i = map_option f (map_of us i)"
  by (induction us) auto

lemma edits_tally:
  assumes "edits g f" and "distinct (map fst us)" and "\<And>u. w (f u) = w u"
  shows "tally w (g us) = tally w us"
  using assms tally_map_key_same by (auto simp: edits_def tally_map)

lemma edits_lookup:
  assumes "edits g f" and "\<And>u. P (f u) = P u"
  shows "(\<exists>u. map_of (g us) i = Some u \<and> P u) = (\<exists>u. map_of us i = Some u \<and> P u)"
  using assms by (auto simp: edits_def map_of_map_key map_of_map_values split: if_splits)

lemma edits_keys: "edits g f \<Longrightarrow> map fst (g us) = map fst us"
  by (auto simp: edits_def case_prod_unfold)

lemma edits_all:
  assumes "edits g f" and "\<And>u. P u \<Longrightarrow> P (f u)" and "\<And>i u. map_of us i = Some u \<Longrightarrow> P u"
    and "map_of (g us) i = Some u"
  shows "P u"
  using assms by (auto simp: edits_def map_of_map_key map_of_map_values split: if_splits)

lemma counts_ok_edit:
  assumes "edits g f" and "distinct (map fst us)" and "\<And>u. ip (f u) = ip u" "\<And>u. conn_class (f u) = conn_class u"
    and "counts_ok us pi pc pic"
  shows "counts_ok (g us) pi pc pic"
  using assms(5) edits_tally [OF assms(1,2)] by (simp add: counts_ok_def assms(3,4))

lemma accepts_ok_edit:
  assumes "edits g f" and "distinct (map fst us)" and "\<And>u. accept (f u) = accept u" and "accepts_ok us acc"
  shows "accepts_ok (g us) acc"
  using assms(4) edits_tally [OF assms(1,2)] by (simp add: accepts_ok_def assms(3))

lemma index_ok_edit:
  assumes "edits g f" and "\<And>u. sel (f u) = sel u" and "index_ok sel us idx"
  shows "index_ok sel (g us) idx"
proof -
  have "(\<exists>u. map_of (g us) i = Some u \<and> n \<in> set (sel u)) = (\<exists>u. map_of us i = Some u \<and> n \<in> set (sel u))" for i n
    by (rule edits_lookup [OF assms(1)]) (simp add: assms(2))
  then show ?thesis using assms(3) by (simp add: index_ok_def)
qed

lemma nicks_ok_edit:
  assumes "edits g f" and "\<And>u. nick (f u) = nick u" and "nicks_ok us idx"
  shows "nicks_ok (g us) idx"
proof -
  have "(\<exists>u. map_of (g us) i = Some u \<and> nick u \<noteq> [] \<and> to_ascii_lowercase (nick u) = low)
      = (\<exists>u. map_of us i = Some u \<and> nick u \<noteq> [] \<and> to_ascii_lowercase (nick u) = low)" for i low
    by (rule edits_lookup [OF assms(1)]) (simp add: assms(2))
  then show ?thesis using assms(3) unfolding nicks_ok_def by blast
qed

lemma uuids_ok_edit:
  assumes "edits g f" and "\<And>u. uuid (f u) = uuid u" and "uuids_ok us idx"
  shows "uuids_ok (g us) idx"
proof -
  have "(\<exists>u. map_of (g us) i = Some u \<and> uuid u = uu) = (\<exists>u. map_of us i = Some u \<and> uuid u = uu)" for i uu
    by (rule edits_lookup [OF assms(1)]) (simp add: assms(2))
  then show ?thesis using assms(3) unfolding uuids_ok_def by blast
qed

lemma guard_ok_edit:
  assumes "edits g f" and "distinct (map fst us)" and "\<And>u. registered (f u) = registered u"
    and "\<And>u. joined_chans (f u) = joined_chans u" and "guard_ok us n"
  shows "guard_ok (g us) n"
proof -
  have "tally (\<lambda>u. of_bool (\<not> registered u)) (g us) = tally (\<lambda>u. of_bool (\<not> registered u)) us"
    using edits_tally [OF assms(1,2)] by (simp add: assms(3))
  moreover have "\<not> registered u \<longrightarrow> joined_chans u = []" if "map_of (g us) i = Some u" for i u
    by (rule edits_all [OF assms(1) _ _ that]) (use assms(5) in \<open>auto simp: assms(3,4) guard_ok_def\<close>)
  ultimately show ?thesis using assms(5) by (simp add: guard_ok_def)
qed

lemma membership_edit:
  assumes "edits g f" and "\<And>u. joined_chans (f u) = joined_chans u" and "membership_ok us cs"
  shows "membership_ok (g us) cs"
proof -
  have "lists_chan (g us) i k = (\<exists>u. map_of (g us) i = Some u \<and> k \<in> set (joined_chans u))"
    "lists_chan us i k = (\<exists>u. map_of us i = Some u \<and> k \<in> set (joined_chans u))" for i k
    by (auto simp: lists_chan_def split: option.splits)
  then have "lists_chan (g us) i k = lists_chan us i k" for i k
    using edits_lookup [OF assms(1), of "\<lambda>u. k \<in> set (joined_chans u)" us i] by (simp add: assms(2))
  moreover have "distinct (joined_chans u)" if "map_of (g us) i = Some u" for i u
    by (rule edits_all [OF assms(1) _ _ that]) (use assms(3) in \<open>auto simp: assms(2) membership_ok_def\<close>)
  ultimately show ?thesis
    using assms(3) edits_keys [OF assms(1), of us] by (simp add: membership_ok_def)
qed

section \<open>A user comes\<close>

lemma map_of_new: "map_of us uid = None \<Longrightarrow>
   (\<exists>v. map_of (AList.update uid u us) i = Some v \<and> P v) \<longleftrightarrow> (i = uid \<and> P u) \<or> (\<exists>v. map_of us i = Some v \<and> P v)"
  by (auto simp: hmap_simps)

lemma counts_ok_new:
  assumes "counts_ok us pi pc pic" and "map_of us uid = None" and "conn_class u = None"
  shows "counts_ok (AList.update uid u us) (count_inc (ip u) pi) pc pic"
  using assms by (auto simp: counts_ok_def tally_new counts_laws)

lemma accepts_ok_new:
  "accepts_ok us acc \<Longrightarrow> map_of us uid = None \<Longrightarrow> accept u = [] \<Longrightarrow> accepts_ok (AList.update uid u us) acc"
  by (simp add: accepts_ok_def tally_new)

lemma index_ok_new:
  "index_ok sel us idx \<Longrightarrow> map_of us uid = None \<Longrightarrow> sel u = [] \<Longrightarrow> index_ok sel (AList.update uid u us) idx"
  by (simp add: index_ok_def map_of_new)

lemma nicks_ok_new:
  assumes "nicks_ok us idx" and "map_of us uid = None"
  shows "nick u = [] \<Longrightarrow> nicks_ok (AList.update uid u us) idx"
    and "nick u \<noteq> [] \<Longrightarrow> map_of idx (to_ascii_lowercase (nick u)) = None \<Longrightarrow>
           nicks_ok (AList.update uid u us) (AList.update (to_ascii_lowercase (nick u)) uid idx)"
  using assms
  by (auto simp: nicks_ok_def map_of_new hmap_simps distinct_update simp del: map_of_eq_Some_iff split: if_splits)
    (metis option.distinct(1))

lemma uuids_ok_new:
  "uuids_ok us idx \<Longrightarrow> map_of us uid = None \<Longrightarrow> map_of idx (uuid u) = None \<Longrightarrow>
     uuids_ok (AList.update uid u us) (AList.update (uuid u) uid idx)"
  by (auto simp: uuids_ok_def map_of_new hmap_simps distinct_update simp del: map_of_eq_Some_iff split: if_splits)
    (metis option.distinct(1))

lemma guard_ok_new:
  "guard_ok us n \<Longrightarrow> map_of us uid = None \<Longrightarrow> joined_chans u = [] \<Longrightarrow>
     guard_ok (AList.update uid u us) (n + of_bool (\<not> registered u))"
  by (auto simp: guard_ok_def tally_new hmap_simps split: if_splits)

lemma membership_new:
  assumes "membership_ok us cs" and "map_of us uid = None" and "joined_chans u = []"
  shows "membership_ok (AList.update uid u us) cs"
proof -
  have "lists_chan (AList.update uid u us) i k = lists_chan us i k" for i k
    using assms(2,3) by (auto simp: lists_chan_def hmap_simps)
  then show ?thesis
    using assms by (auto simp: membership_ok_def hmap_simps distinct_update simp del: map_of_eq_Some_iff split: if_splits)
qed

section \<open>A user goes\<close>

lemma map_of_gone: "distinct (map fst us) \<Longrightarrow>
   (\<exists>v. map_of (AList.delete uid us) i = Some v \<and> P v) \<longleftrightarrow> i \<noteq> uid \<and> (\<exists>v. map_of us i = Some v \<and> P v)"
  by (simp add: hmap_simps del: map_of_eq_Some_iff)

lemma counts_ok_delete:
  assumes "counts_ok us pi pc pic" and "distinct (map fst us)" and "map_of us uid = Some u"
  shows "counts_ok (AList.delete uid us) (count_dec (ip u) pi)
           (case conn_class u of None \<Rightarrow> pc | Some c \<Rightarrow> count_dec c pc)
           (case conn_class u of None \<Rightarrow> pic | Some c \<Rightarrow> count_dec (ip u, c) pic)"
proof -
  note split = tally_delete [OF assms(2,3)]
  have eqs: "count_get pi a = tally (\<lambda>u. of_bool (ip u = a)) (AList.delete uid us) + of_bool (ip u = a)"
    "count_get pc c = tally (\<lambda>u. of_bool (conn_class u = Some c)) (AList.delete uid us) + of_bool (conn_class u = Some c)"
    "count_get pic (a, c) = tally (\<lambda>u. of_bool (ip u = a \<and> conn_class u = Some c)) (AList.delete uid us)
       + of_bool (ip u = a \<and> conn_class u = Some c)" for a c
    using assms(1) by (auto simp: counts_ok_def split)
  have wf: "counts_wf pi" "counts_wf pc" "counts_wf pic" using assms(1) by (simp_all add: counts_ok_def)
  show ?thesis
    by (cases "conn_class u") (auto simp: counts_ok_def counts_laws wf eqs)
qed

lemma accepts_ok_delete:
  assumes "accepts_ok us acc" and "distinct (map fst us)" and "map_of us uid = Some u"
  shows "accepts_ok (AList.delete uid us) (fold count_dec (accept u) acc)"
proof -
  have wf: "counts_wf acc" using assms(1) by (simp add: accepts_ok_def)
  have "tally (\<lambda>u. count_list (accept u) n) (AList.delete uid us) + count_list (accept u) n \<le> count_get acc n" for n
    using assms(1) tally_delete [OF assms(2,3), of "\<lambda>u. count_list (accept u) n"]
    by (simp add: accepts_ok_def) (metis order_refl)
  then have "tally (\<lambda>u. count_list (accept u) n) (AList.delete uid us) \<le> count_get (fold count_dec (accept u) acc) n" for n
    using add_le_imp_le_diff tab.cnt_fold_dec [OF wf] by fastforce
  then show ?thesis using tab.wf_folds(2) [OF wf] by (simp add: accepts_ok_def)
qed

lemma index_ok_delete:
  assumes "index_ok sel us idx" and "distinct (map fst us)" and "map_of us uid = Some u"
  shows "index_ok sel (AList.delete uid us) (fold (\<lambda>n. index_remove n uid) (sel u) idx)"
proof -
  have wf: "index_wf idx" using assms(1) by (simp add: index_ok_def)
  then show ?thesis
    using assms(1,3)
    by (auto simp: index_ok_def map_of_gone [OF assms(2)] ridx.has_remove_all ridx.wf_remove_all simp del: map_of_eq_Some_iff)
qed

lemma nicks_ok_delete:
  assumes "nicks_ok us idx" and "distinct (map fst us)" and "map_of us uid = Some u"
  shows "nicks_ok (AList.delete uid us) (if nick u \<noteq> [] then AList.delete (to_ascii_lowercase (nick u)) idx else idx)"
proof -
  have idx: "map_of idx low = Some i \<longleftrightarrow> (\<exists>u. map_of us i = Some u \<and> nick u \<noteq> [] \<and> to_ascii_lowercase (nick u) = low)"
    for low i using assms(1) by (simp add: nicks_ok_def)
  have dist: "distinct (map fst idx)" using assms(1) by (simp add: nicks_ok_def)
  have "i = uid" if "nick u \<noteq> []" "map_of us i = Some v" "nick v \<noteq> []"
    "to_ascii_lowercase (nick v) = to_ascii_lowercase (nick u)" for i v
    using that assms(3) idx [of "to_ascii_lowercase (nick u)" i] idx [of "to_ascii_lowercase (nick u)" uid] by auto
  then have "(if nick u \<noteq> [] then low \<noteq> to_ascii_lowercase (nick u) else True) \<and> map_of idx low = Some i
     \<longleftrightarrow> i \<noteq> uid \<and> (\<exists>v. map_of us i = Some v \<and> nick v \<noteq> [] \<and> to_ascii_lowercase (nick v) = low)" for low i
    unfolding idx using assms(3) by (metis option.inject)
  moreover have "map_of (if nick u \<noteq> [] then AList.delete (to_ascii_lowercase (nick u)) idx else idx) low = Some i
     \<longleftrightarrow> (if nick u \<noteq> [] then low \<noteq> to_ascii_lowercase (nick u) else True) \<and> map_of idx low = Some i" for low i
    by (simp add: delete_conv' del: map_of_eq_Some_iff)
  moreover have "distinct (map fst (if nick u \<noteq> [] then AList.delete (to_ascii_lowercase (nick u)) idx else idx))"
    using dist by (simp add: distinct_delete)
  ultimately show ?thesis unfolding nicks_ok_def map_of_gone [OF assms(2)] by simp
qed

lemma uuids_ok_delete:
  assumes "uuids_ok us idx" and "distinct (map fst us)" and "map_of us uid = Some u"
  shows "uuids_ok (AList.delete uid us) (AList.delete (uuid u) idx)"
proof -
  have idx: "map_of idx uu = Some i \<longleftrightarrow> (\<exists>u. map_of us i = Some u \<and> uuid u = uu)" for uu i
    using assms(1) by (simp add: uuids_ok_def)
  have dist: "distinct (map fst idx)" using assms(1) by (simp add: uuids_ok_def)
  have "i = uid" if "map_of us i = Some v" "uuid v = uuid u" for i v
    using that assms(3) idx [of "uuid u" i] idx [of "uuid u" uid] by auto
  then have "uu \<noteq> uuid u \<and> map_of idx uu = Some i \<longleftrightarrow> i \<noteq> uid \<and> (\<exists>v. map_of us i = Some v \<and> uuid v = uu)" for uu i
    unfolding idx using assms(3) by (metis option.inject)
  moreover have "map_of (AList.delete (uuid u) idx) uu = Some i \<longleftrightarrow> uu \<noteq> uuid u \<and> map_of idx uu = Some i" for uu i
    by (simp add: delete_conv' del: map_of_eq_Some_iff)
  moreover have "distinct (map fst (AList.delete (uuid u) idx))" using dist by (simp add: distinct_delete)
  ultimately show ?thesis unfolding uuids_ok_def map_of_gone [OF assms(2)] by simp
qed

lemma guard_ok_delete:
  assumes "guard_ok us n" and "distinct (map fst us)" and "map_of us uid = Some u"
  shows "guard_ok (AList.delete uid us) (n - of_bool (\<not> registered u))"
  using assms(1) tally_delete [OF assms(2,3), of "\<lambda>u. of_bool (\<not> registered u)"] assms(2)
  by (auto simp: guard_ok_def hmap_simps simp del: map_of_eq_Some_iff split: if_splits)

section \<open>Quitting the channels\<close>

definition leave :: "uid \<Rightarrow> channel \<Rightarrow> channel" where
  "leave uid = (\<lambda>c. c\<lparr>members := AList.delete uid (members c)\<rparr>)"

definition uninvite :: "uid \<Rightarrow> channel \<Rightarrow> channel" where
  "uninvite uid = (\<lambda>c. c\<lparr>invites := set_remove uid (invites c)\<rparr>)"

lemma map_of_fold_map_key_idem:
  assumes "\<And>v. f (f v) = f v"
  shows "map_of (fold (\<lambda>k. map_key k f) ks m) k = (if k \<in> set ks then map_option f (map_of m k) else map_of m k)"
proof (induction ks arbitrary: m)
  case (Cons j ks)
  show ?case using assms by (cases "map_of m k") (auto simp: Cons.IH map_of_map_key)
qed simp

lemma leave_idem [simp]: "leave uid (leave uid c) = leave uid c"
  by (simp add: leave_def delete_idem)

lemma uninvite_idem [simp]: "uninvite uid (uninvite uid c) = uninvite uid c"
  by (simp add: uninvite_def set_remove_def)

lemma quit_channel_fold:
  "snd (fold (quit_channel uid) ks (seen, s)) = s\<lparr>channels := fold (\<lambda>k. map_key k (leave uid)) ks (channels s)\<rparr>"
proof (induction ks arbitrary: seen s)
  case (Cons k ks)
  have "snd (quit_channel uid k (seen, s)) = s\<lparr>channels := map_key k (leave uid) (channels s)\<rparr>"
    by (simp add: quit_channel_def update_chan_def leave_def Let_def map_key_absent split: option.split)
  then obtain seen' where "quit_channel uid k (seen, s) = (seen', s\<lparr>channels := map_key k (leave uid) (channels s)\<rparr>)"
    by (metis prod.collapse)
  then show ?case using Cons.IH by simp
qed simp

interpretation watch_on: output_op "watch_notify_online n" for n
  by unfold_locales (simp add: watch_notify_online_def Let_def core_fold split: option.split)

interpretation watch_off: output_op "watch_notify_offline n" for n
  by unfold_locales (simp add: watch_notify_offline_def Let_def core_fold)

interpretation publish: output_op "publish_event evt" for evt
  by unfold_locales (simp add: publish_event_def split: option.split)

lemma core_set_channels: "core (s\<lparr>channels := c\<rparr>) = (core s)\<lparr>channels := c\<rparr>"
  by (simp add: core_def)

definition quit_result :: "uid \<Rightarrow> user \<Rightarrow> (string \<times> channel) list \<Rightarrow> (string \<times> channel) list" where
  "quit_result uid u cs = retain_vals keep_alive
     (fold (\<lambda>k. map_key k (uninvite uid)) (invited u) (fold (\<lambda>k. map_key k (leave uid)) (joined_chans u) cs))"

lemma fold_uninvite:
  "fold (\<lambda>k. update_chan k (\<lambda>c. c\<lparr>invites := set_remove uid (invites c)\<rparr>)) ks s
     = s\<lparr>channels := fold (\<lambda>k. map_key k (uninvite uid)) ks (channels s)\<rparr>"
  by (induction ks arbitrary: s) (simp_all add: update_chan_def uninvite_def)

lemma quit_channels_core: "core (quit_channels uid u reason s) = core (s\<lparr>channels := quit_result uid u (channels s)\<rparr>)"
proof -
  obtain seen s1 where f: "fold (quit_channel uid) (joined_chans u) ([], s) = (seen, s1)" by force
  then have s1: "s1 = s\<lparr>channels := fold (\<lambda>k. map_key k (leave uid)) (joined_chans u) (channels s)\<rparr>"
    using quit_channel_fold [of uid "joined_chans u" "[]" s] by simp
  let ?s2 = "fold (\<lambda>m. send m ('':'' @ user_prefix u @ '' QUIT :'' @ reason)) seen s1"
  have "core ?s2 = core s1" by (rule core_fold) simp
  moreover have "core (quit_channels uid u reason s) =
      (core ?s2)\<lparr>channels := retain_vals keep_alive (fold (\<lambda>k. map_key k (uninvite uid)) (invited u) (channels ?s2))\<rparr>"
    by (simp add: quit_channels_def f Let_def reap_def fold_uninvite core_set_channels)
  ultimately show ?thesis
    using core_eqD(11) [of ?s2 s1] by (simp add: s1 core_set_channels quit_result_def)
qed

lemma members_leave: "map_of (members (leave uid c)) i = (if i = uid then None else map_of (members c) i)"
  by (simp add: leave_def delete_conv')

lemma chan_ok_leave: "chan_ok k c \<Longrightarrow> chan_ok k (leave uid c)"
  by (simp add: chan_ok_def leave_def distinct_delete)

lemma keep_alive_uninvite [simp]: "keep_alive (uninvite uid c) = keep_alive c" "members (uninvite uid c) = members c"
  "chan_name (uninvite uid c) = chan_name c"
  by (simp_all add: uninvite_def keep_alive_def is_empty_chan_def)

lemma keys_fold_map_keys: "map fst (fold (\<lambda>k. map_key k f) ks m) = map fst m"
  by (induction ks arbitrary: m) simp_all

text \<open>Edits of channels under a list of keys that touch neither names nor members keep the relation.\<close>

lemma membership_uninvite:
  assumes "membership_ok us cs"
  shows "membership_ok us (fold (\<lambda>k. map_key k (uninvite uid)) ks cs)"
proof (rule membership_okI)
  note ok = membership_okD [OF assms]
  let ?cs = "fold (\<lambda>k. map_key k (uninvite uid)) ks cs"
  note look = map_of_fold_map_key_idem [of "uninvite uid" ks cs, OF uninvite_idem]
  show "distinct (map fst ?cs)" "distinct (map fst us)" using ok(1,2) by (simp_all add: keys_fold_map_keys)
  show "chan_ok k c" if "map_of ?cs k = Some c" for k c
    using that ok(3) by (auto simp: look chan_ok_def split: if_splits)
  show "distinct (joined_chans u)" if "map_of us i = Some u" for i u using that ok(4) by simp
  have "on_chan ?cs i k = on_chan cs i k" for i k by (simp add: on_chan_def look split: option.split)
  then show "on_chan ?cs i k = lists_chan us i k" for i k using ok(5) by simp
qed

lemma membership_quit:
  assumes "membership_ok us cs" and "map_of us uid = Some u"
  shows "membership_ok (AList.delete uid us) (fold (\<lambda>k. map_key k (leave uid)) (joined_chans u) cs)"
proof (rule membership_okI)
  note ok = membership_okD [OF assms(1)]
  let ?cs = "fold (\<lambda>k. map_key k (leave uid)) (joined_chans u) cs"
  note look = map_of_fold_map_key_idem [of "leave uid" "joined_chans u" cs, OF leave_idem]
  show "distinct (map fst ?cs)" "distinct (map fst (AList.delete uid us))"
    using ok(1,2) by (simp_all add: keys_fold_map_keys distinct_delete)
  show "chan_ok k c" if "map_of ?cs k = Some c" for k c
    using that ok(3) by (auto simp: look chan_ok_leave split: if_splits)
  show "distinct (joined_chans v)" if "map_of (AList.delete uid us) i = Some v" for i v
    using that ok(1,4) by (auto simp: delete_conv' simp del: map_of_eq_Some_iff split: if_splits)
  have mine: "on_chan cs uid k \<longleftrightarrow> k \<in> set (joined_chans u)" for k
    using ok(5) [of uid k] assms(2) by (simp add: lists_chan_def)
  have "on_chan ?cs i k \<longleftrightarrow> on_chan cs i k \<and> i \<noteq> uid" for i k
    using mine [of k] by (auto simp: on_chan_def look members_leave split: option.splits)
  then show "on_chan ?cs i k = lists_chan (AList.delete uid us) i k" for i k
    using ok(5) by (auto simp: lists_chan_def delete_conv' split: option.split)
qed

lemma quit_result_membership:
  assumes "membership_ok us cs" and "map_of us uid = Some u"
  shows "membership_ok (AList.delete uid us) (quit_result uid u cs)" "all_alive (quit_result uid u cs)"
proof -
  let ?cs = "fold (\<lambda>k. map_key k (uninvite uid)) (invited u) (fold (\<lambda>k. map_key k (leave uid)) (joined_chans u) cs)"
  have ok: "membership_ok (AList.delete uid us) ?cs"
    using assms by (intro membership_uninvite membership_quit)
  then show "membership_ok (AList.delete uid us) (quit_result uid u cs)" "all_alive (quit_result uid u cs)"
    unfolding quit_result_def by (auto intro: membership_retain all_alive_retain keep_alive_not dest: membership_okD(2))
qed

section \<open>ACCEPT lists\<close>

lemma count_list_filter: "count_list (filter (\<lambda>x. x \<noteq> a) xs) n = (if n = a then 0 else count_list xs n)"
  by (induction xs) auto

lemma counts_wf_delete: "counts_wf m \<Longrightarrow> counts_wf (AList.delete k m)"
  by (auto simp: counts_wf_def distinct_delete delete_conv' simp del: map_of_eq_Some_iff)

lemma count_get_delete: "count_get (AList.delete k m) j = (if j = k then 0 else count_get m j)"
  by (simp add: count_get_def delete_conv')

definition forget_accept :: "string \<Rightarrow> user \<Rightarrow> user" where
  "forget_accept low = (\<lambda>u. u\<lparr>accept := filter (\<lambda>n. n \<noteq> low) (accept u)\<rparr>)"

definition rename_accept :: "string \<Rightarrow> string \<Rightarrow> user \<Rightarrow> user" where
  "rename_accept a b = (\<lambda>u. u\<lparr>accept := map (\<lambda>n. if n = a then b else n) (accept u)\<rparr>)"

text \<open>The scan is skipped only when no list has the nick.\<close>

lemma tally_filter_absent:
  assumes "tally (\<lambda>u. count_list (accept u) low) us = 0"
  shows "map (\<lambda>(i, u). (i, forget_accept low u)) us = us"
  using assms
proof (induction us)
  case (Cons p us)
  then have "low \<notin> set (accept (snd p))" by (simp add: count_list_0_iff)
  then have "filter (\<lambda>n. n \<noteq> low) (accept (snd p)) = accept (snd p)" by (auto intro: filter_True)
  then show ?case using Cons by (cases p) (simp add: forget_accept_def)
qed simp

lemma scrub_accepts_eq:
  assumes "accepts_ok (users s) (accepted_nicks s)"
  shows "scrub_accepts low s = s\<lparr>accepted_nicks := AList.delete low (accepted_nicks s),
           users := map (\<lambda>(i, u). (i, forget_accept low u)) (users s)\<rparr>"
proof (cases "count_get (accepted_nicks s) low > 0")
  case False
  then have "tally (\<lambda>u. count_list (accept u) low) (users s) = 0"
    using assms by (simp add: accepts_ok_def) (metis le_zero_eq)
  from tally_filter_absent [OF this] False show ?thesis by (simp add: scrub_accepts_def)
qed (simp add: scrub_accepts_def forget_accept_def)

lemma accepts_ok_scrub:
  assumes "accepts_ok us acc"
  shows "accepts_ok (map (\<lambda>(i, u). (i, forget_accept low u)) us) (AList.delete low acc)"
proof -
  have "tally (\<lambda>u. count_list (accept u) n) (map (\<lambda>(i, u). (i, forget_accept low u)) us)
      \<le> count_get (AList.delete low acc) n" for n
  proof (cases "n = low")
    case True
    then have "tally (\<lambda>u. count_list (accept (forget_accept low u)) n) us = tally (\<lambda>_. 0) us"
      by (simp add: forget_accept_def count_list_filter)
    then show ?thesis by (simp add: tally_map tally_zero)
  next
    case False
    then show ?thesis using assms
      by (simp add: accepts_ok_def tally_map forget_accept_def count_list_filter count_get_delete)
  qed
  then show ?thesis using assms counts_wf_delete by (auto simp: accepts_ok_def)
qed

lemma count_list_rename:
  "a \<noteq> b \<Longrightarrow> count_list (map (\<lambda>n. if n = a then b else n) xs) n =
     (if n = a then 0 else if n = b then count_list xs a + count_list xs b else count_list xs n)"
  by (induction xs) auto

lemma rename_accepts_ok:
  assumes "accepts_ok (users s) (accepted_nicks s)" and "a \<noteq> b"
  shows "accepts_ok (users (rename_accepts a b s)) (accepted_nicks (rename_accepts a b s))"
    "users (rename_accepts a b s) = map (\<lambda>(i, u). (i, rename_accept a b u)) (users s)"
proof -
  let ?m = "accepted_nicks s"
  show us: "users (rename_accepts a b s) = map (\<lambda>(i, u). (i, rename_accept a b u)) (users s)"
    by (simp add: rename_accepts_def Let_def rename_accept_def split: option.split)
  have wf: "counts_wf ?m" and le: "\<And>n. tally (\<lambda>u. count_list (accept u) n) (users s) \<le> count_get ?m n"
    using assms(1) by (simp_all add: accepts_ok_def)
  have acc: "count_get (accepted_nicks (rename_accepts a b s)) n =
      (if n = a then 0 else if n = b then count_get ?m b + count_get ?m a else count_get ?m n)" for n
    using assms(2) by (cases "map_of ?m a")
      (auto simp: rename_accepts_def Let_def count_get_def hmap_simps split: option.split)
  have "counts_wf (accepted_nicks (rename_accepts a b s))"
    using wf by (auto simp: rename_accepts_def Let_def counts_wf_def count_get_def hmap_simps distinct_delete
        distinct_update simp del: map_of_eq_Some_iff split: option.split) (metis gr0I)+
  moreover have "tally (\<lambda>u. count_list (accept u) n) (map (\<lambda>(i, u). (i, rename_accept a b u)) (users s)) =
      (if n = a then 0 else if n = b then tally (\<lambda>u. count_list (accept u) a) (users s)
          + tally (\<lambda>u. count_list (accept u) b) (users s)
       else tally (\<lambda>u. count_list (accept u) n) (users s))" for n
    using assms(2) by (simp add: tally_map rename_accept_def count_list_rename tally_add tally_zero)
  ultimately show "accepts_ok (users (rename_accepts a b s)) (accepted_nicks (rename_accepts a b s))"
    using le by (simp add: accepts_ok_def us acc add_mono add.commute)
qed

section \<open>The operations keep the invariants\<close>

lemma user_invD:
  assumes "user_inv s"
  shows "chan_inv s" "counts_ok (users s) (per_ip s) (per_class s) (per_ip_class s)"
    "accepts_ok (users s) (accepted_nicks s)" "index_ok watch (users s) (watch_by s)"
    "index_ok monitor (users s) (monitor_by s)" "nicks_ok (users s) (nick_index s)"
    "uuids_ok (users s) (uuid_local s)" "guard_ok (users s) (unreg_count s)"
    "distinct (map fst (users s))" "membership_ok (users s) (channels s)" "all_alive (channels s)"
  using assms by (simp_all add: user_inv_def chan_inv_def membership_ok_def)

lemma user_invI:
  assumes "membership_ok (users s) (channels s)" "all_alive (channels s)"
    "counts_ok (users s) (per_ip s) (per_class s) (per_ip_class s)"
    "accepts_ok (users s) (accepted_nicks s)" "index_ok watch (users s) (watch_by s)"
    "index_ok monitor (users s) (monitor_by s)" "nicks_ok (users s) (nick_index s)"
    "uuids_ok (users s) (uuid_local s)" "guard_ok (users s) (unreg_count s)"
  shows "user_inv s"
  using assms by (simp add: user_inv_def chan_inv_def)

text \<open>It reads nothing else of the state, so an operation that only writes other fields keeps it.\<close>

lemma user_inv_cong:
  assumes "users a = users b" "channels a = channels b" "per_ip a = per_ip b" "per_class a = per_class b"
    "per_ip_class a = per_ip_class b" "accepted_nicks a = accepted_nicks b" "watch_by a = watch_by b"
    "monitor_by a = monitor_by b" "nick_index a = nick_index b" "uuid_local a = uuid_local b"
    "unreg_count a = unreg_count b"
  shows "user_inv a = user_inv b"
  using assms by (simp add: user_inv_def chan_inv_def)

lemma user_inv_core: "core a = core b \<Longrightarrow> user_inv a = user_inv b"
  by (rule user_inv_cong) (auto dest: core_eqD)

text \<open>Quitting.\<close>

lemmas user_op_defs = count_connect_def count_disconnect_def note_connect_def note_registered_def note_removed_unreg_def
  push_whowas_def drop_indexes_def free_nick_def Let_def

lemma accepts_after_drop:
  assumes "user_inv s" and "map_of (users s) uid = Some u"
  shows "accepts_ok (AList.delete uid (users s)) (fold count_dec (accept u) (accepted_nicks s))"
  using user_invD(3,9) [OF assms(1)] accepts_ok_delete assms(2) by blast

lemmas quit_sel [simp] = core_eqD [OF quit_channels_core, simplified]

lemma remove_user_fields:
  fixes reason :: string
  assumes "user_inv s" and "map_of (users s) uid = Some u"
  defines "us \<equiv> AList.delete uid (users s)" and "low \<equiv> to_ascii_lowercase (nick u)"
    and "acc \<equiv> fold count_dec (accept u) (accepted_nicks s)" and "s' \<equiv> remove_user uid reason s"
  shows "users s' = (if nick u = [] then us else map (\<lambda>(i, v). (i, forget_accept low v)) us)"
    "accepted_nicks s' = (if nick u = [] then acc else AList.delete low acc)"
    "nick_index s' = (if nick u \<noteq> [] then AList.delete low (nick_index s) else nick_index s)"
    "per_ip s' = count_dec (ip u) (per_ip s)"
    "per_class s' = (case conn_class u of None \<Rightarrow> per_class s | Some c \<Rightarrow> count_dec c (per_class s))"
    "per_ip_class s' = (case conn_class u of None \<Rightarrow> per_ip_class s | Some c \<Rightarrow> count_dec (ip u, c) (per_ip_class s))"
    "watch_by s' = fold (\<lambda>n. index_remove n uid) (watch u) (watch_by s)"
    "monitor_by s' = fold (\<lambda>n. index_remove n uid) (monitor u) (monitor_by s)"
    "uuid_local s' = AList.delete (uuid u) (uuid_local s)"
    "unreg_count s' = unreg_count s - of_bool (\<not> registered u)"
    "channels s' = (if registered u then quit_result uid u (channels s) else channels s)"
  using assms(2) accepts_after_drop [OF assms(1,2)]
  by (simp_all add: s'_def us_def low_def acc_def remove_user_def user_op_defs scrub_accepts_eq split: option.split)

lemma forget_edits: "edits (map (\<lambda>(i, v). (i, forget_accept low v))) (forget_accept low)"
  by (rule edits_intros(2))

lemma forget_sel [simp]:
  "ip (forget_accept low u) = ip u" "conn_class (forget_accept low u) = conn_class u"
  "watch (forget_accept low u) = watch u" "monitor (forget_accept low u) = monitor u"
  "nick (forget_accept low u) = nick u" "uuid (forget_accept low u) = uuid u"
  "registered (forget_accept low u) = registered u" "joined_chans (forget_accept low u) = joined_chans u"
  by (simp_all add: forget_accept_def)

lemma quit_no_channels:
  assumes "guard_ok us n" and "map_of us uid = Some u" and "\<not> registered u" and "membership_ok us cs"
  shows "membership_ok (AList.delete uid us) cs"
  using membership_quit [OF assms(4,2)] assms(1-3) by (simp add: guard_ok_def)

lemma remove_user_inv:
  assumes "user_inv s"
  shows "user_inv (remove_user uid reason s)"
proof (cases "map_of (users s) uid")
  case None
  then show ?thesis using assms by (simp add: remove_user_def)
next
  case (Some u)
  note inv = user_invD [OF assms] and fields = remove_user_fields [OF assms Some, of reason]
  let ?us = "AList.delete uid (users s)" and ?low = "to_ascii_lowercase (nick u)"
  have dist: "distinct (map fst ?us)" using inv(9) by (simp add: distinct_delete)
  have acc: "accepts_ok ?us (fold count_dec (accept u) (accepted_nicks s))"
    by (rule accepts_after_drop [OF assms Some])
  have cs: "membership_ok ?us (if registered u then quit_result uid u (channels s) else channels s)"
    "all_alive (if registered u then quit_result uid u (channels s) else channels s)"
    using quit_result_membership [OF inv(10) Some] quit_no_channels [OF inv(8) Some _ inv(10)] inv(11) by auto
  note kept = cs(1) counts_ok_delete [OF inv(2,9) Some] index_ok_delete [OF inv(4,9) Some]
    index_ok_delete [OF inv(5,9) Some] nicks_ok_delete [OF inv(6,9) Some] uuids_ok_delete [OF inv(7,9) Some]
    guard_ok_delete [OF inv(8,9) Some]
  show ?thesis
  proof (cases "nick u = []")
    case True
    then show ?thesis
      by (intro user_invI) (use kept cs(2) acc in \<open>simp_all add: fields\<close>)
  next
    case False
    show ?thesis
      by (rule user_invI; unfold fields; use False in simp)
        (use kept cs(2) dist accepts_ok_scrub [OF acc] False in
          \<open>auto intro: membership_edit [OF forget_edits] counts_ok_edit [OF forget_edits]
            index_ok_edit [OF forget_edits] nicks_ok_edit [OF forget_edits] uuids_ok_edit [OF forget_edits]
            guard_ok_edit [OF forget_edits]\<close>)
  qed
qed

text \<open>Two states with the same user table and derived tables.\<close>

definition same_tables :: "server \<Rightarrow> server \<Rightarrow> bool" where
  "same_tables a b \<longleftrightarrow> users a = users b \<and> channels a = channels b \<and> per_ip a = per_ip b \<and> per_class a = per_class b
     \<and> per_ip_class a = per_ip_class b \<and> accepted_nicks a = accepted_nicks b \<and> watch_by a = watch_by b
     \<and> monitor_by a = monitor_by b \<and> nick_index a = nick_index b \<and> uuid_local a = uuid_local b
     \<and> unreg_count a = unreg_count b"

lemma same_tables_inv: "same_tables a b \<Longrightarrow> user_inv a = user_inv b"
  by (rule user_inv_cong) (simp_all add: same_tables_def)

lemma same_tables_core: "core a = core b \<Longrightarrow> same_tables a b"
  by (simp add: same_tables_def core_eqD [of a b])

lemma same_tables_refl [simp]: "same_tables a a"
  by (simp add: same_tables_def)

lemma same_tables_trans [trans]: "same_tables a b \<Longrightarrow> same_tables b c \<Longrightarrow> same_tables a c"
  by (simp add: same_tables_def)

lemma same_tables_fold:
  "(\<And>x acc. same_tables (snd (f x acc)) (snd acc)) \<Longrightarrow> same_tables (snd (fold f xs acc)) (snd acc)"
proof (induction xs arbitrary: acc)
  case (Cons x xs)
  show ?case using same_tables_trans [OF Cons.IH [OF Cons.prems, of "f x acc"] Cons.prems] by simp
qed simp

lemma record_event_tables: "same_tables (record_event key line s) s"
  by (simp add: same_tables_def record_event_def history_push_def next_msgid_def Let_def)

lemma nick_audience_tables: "same_tables (snd (nick_audience uid line key acc)) (snd acc)"
  using record_event_tables
  by (simp add: nick_audience_def Let_def case_prod_unfold split: option.split)

lemma set_nick_tell_tables: "same_tables (set_nick_tell E uid u newnick s) s"
proof -
  define line where "line = '':'' @ user_prefix u @ '' NICK :'' @ newnick"
  obtain targets s1 where f: "fold (nick_audience uid line) (joined_chans u) ([uid], s) = (targets, s1)" by force
  have "same_tables s1 s"
    using same_tables_fold [of "nick_audience uid line", OF nick_audience_tables, of "joined_chans u" "([uid], s)"]
    by (simp add: f)
  moreover have "core (fold (\<lambda>t. send t line) targets s1) = core s1" by (rule core_fold) simp
  then have "core (set_nick_tell E uid u newnick s) = core s1"
    unfolding set_nick_tell_def line_def [symmetric] by (simp add: f Let_def)
  ultimately show ?thesis by (blast intro: same_tables_trans same_tables_core)
qed

lemma propagate_nick_core: "core (propagate_nick uid newnick s) = core s"
  by (simp add: propagate_nick_def split: option.split)

lemma nicks_ok_rename:
  assumes "nicks_ok us idx" and "map_of us uid = Some u" and "newnick \<noteq> []"
    and "map_of idx (to_ascii_lowercase newnick) \<in> {None, Some uid}"
  shows "nicks_ok (map_key uid (\<lambda>u. u\<lparr>nick := newnick, nick_ts := t\<rparr>) us)
           (AList.update (to_ascii_lowercase newnick) uid
              (if nick u \<noteq> [] then AList.delete (to_ascii_lowercase (nick u)) idx else idx))"
    (is "nicks_ok ?us ?idx")
proof -
  have idx: "map_of idx low = Some i \<longleftrightarrow> (\<exists>u. map_of us i = Some u \<and> nick u \<noteq> [] \<and> to_ascii_lowercase (nick u) = low)"
    for low i using assms(1) by (simp add: nicks_ok_def)
  let ?new = "to_ascii_lowercase newnick" and ?old = "to_ascii_lowercase (nick u)"
  have other: "i = uid" if "map_of us i = Some v" "nick v \<noteq> []" "to_ascii_lowercase (nick v) = ?new" for i v
    using that assms(4) idx [of ?new i] by auto
  have own: "i = uid" if "nick u \<noteq> []" "map_of us i = Some v" "nick v \<noteq> []" "to_ascii_lowercase (nick v) = ?old" for i v
    using that assms(2) idx [of ?old i] idx [of ?old uid] by auto
  have "map_of ?idx low = Some i \<longleftrightarrow> (if low = ?new then i = uid
      else (nick u = [] \<or> low \<noteq> ?old) \<and> (\<exists>v. map_of us i = Some v \<and> nick v \<noteq> [] \<and> to_ascii_lowercase (nick v) = low))"
    for low i by (simp add: update_conv' delete_conv' idx del: map_of_eq_Some_iff) auto
  also have "\<dots> low i \<longleftrightarrow> (\<exists>v. map_of ?us i = Some v \<and> nick v \<noteq> [] \<and> to_ascii_lowercase (nick v) = low)" for low i
    using other [of i] own [of i] assms(2,3) by (auto simp: map_of_map_key)
  finally show ?thesis
    using assms(1) by (simp add: nicks_ok_def distinct_update distinct_delete)
qed

lemma set_nick_core_fields:
  fixes newnick :: string
  assumes "user_inv s" and "map_of (users s) uid = Some u"
  defines "us \<equiv> map_key uid (\<lambda>u. u\<lparr>nick := newnick, nick_ts := clock s\<rparr>) (users s)"
    and "old \<equiv> to_ascii_lowercase (nick u)" and "new \<equiv> to_ascii_lowercase newnick"
    and "s' \<equiv> set_nick_core uid u newnick s"
  shows "users s' = (if nick u \<noteq> [] \<and> old \<noteq> new then map (\<lambda>(i, v). (i, rename_accept old new v)) us else us)"
    "nick_index s' = AList.update new uid (if nick u \<noteq> [] then AList.delete old (nick_index s) else nick_index s)"
    "accepts_ok us (accepted_nicks s) \<Longrightarrow> accepts_ok (users s') (accepted_nicks s')"
    "channels s' = channels s" "per_ip s' = per_ip s" "per_class s' = per_class s" "per_ip_class s' = per_ip_class s"
    "watch_by s' = watch_by s" "monitor_by s' = monitor_by s" "uuid_local s' = uuid_local s"
    "unreg_count s' = unreg_count s"
proof -
  define s3 where "s3 = update_user uid (\<lambda>u. u\<lparr>nick := newnick, nick_ts := clock s\<rparr>)
     ((if registered u then push_whowas (nick u) (ident u) (host_display u) (realname u) (account u) s else s)
       \<lparr>nick_index := AList.update new uid (if nick u \<noteq> [] then AList.delete old (nick_index s) else nick_index s)\<rparr>)"
  have s': "s' = (if nick u \<noteq> [] \<and> old \<noteq> new then rename_accepts old new s3 else s3)"
    by (simp add: s'_def set_nick_core_def s3_def old_def new_def push_whowas_def Let_def)
  have s3: "users s3 = us" "accepted_nicks s3 = accepted_nicks s" "channels s3 = channels s" "per_ip s3 = per_ip s"
    "per_class s3 = per_class s" "per_ip_class s3 = per_ip_class s" "watch_by s3 = watch_by s"
    "monitor_by s3 = monitor_by s" "uuid_local s3 = uuid_local s" "unreg_count s3 = unreg_count s"
    "nick_index s3 = AList.update new uid (if nick u \<noteq> [] then AList.delete old (nick_index s) else nick_index s)"
    by (simp_all add: s3_def push_whowas_def update_user_def us_def)
  have keep: "channels (rename_accepts old new s3) = channels s3" "per_ip (rename_accepts old new s3) = per_ip s3"
    "per_class (rename_accepts old new s3) = per_class s3" "per_ip_class (rename_accepts old new s3) = per_ip_class s3"
    "watch_by (rename_accepts old new s3) = watch_by s3" "monitor_by (rename_accepts old new s3) = monitor_by s3"
    "uuid_local (rename_accepts old new s3) = uuid_local s3" "unreg_count (rename_accepts old new s3) = unreg_count s3"
    "nick_index (rename_accepts old new s3) = nick_index s3"
    "users (rename_accepts old new s3) = map (\<lambda>(i, v). (i, rename_accept old new v)) (users s3)"
    by (simp_all add: rename_accepts_def rename_accept_def Let_def split: option.split)
  show "users s' = (if nick u \<noteq> [] \<and> old \<noteq> new then map (\<lambda>(i, v). (i, rename_accept old new v)) us else us)"
    "nick_index s' = AList.update new uid (if nick u \<noteq> [] then AList.delete old (nick_index s) else nick_index s)"
    "channels s' = channels s" "per_ip s' = per_ip s" "per_class s' = per_class s" "per_ip_class s' = per_ip_class s"
    "watch_by s' = watch_by s" "monitor_by s' = monitor_by s" "uuid_local s' = uuid_local s"
    "unreg_count s' = unreg_count s"
    by (simp_all add: s' keep s3)
  show "accepts_ok us (accepted_nicks s) \<Longrightarrow> accepts_ok (users s') (accepted_nicks s')"
    using rename_accepts_ok(1) [of s3 old new] by (auto simp: s' s3)
qed

lemma rename_sel [simp]:
  "ip (rename_accept a b u) = ip u" "conn_class (rename_accept a b u) = conn_class u"
  "watch (rename_accept a b u) = watch u" "monitor (rename_accept a b u) = monitor u"
  "nick (rename_accept a b u) = nick u" "uuid (rename_accept a b u) = uuid u"
  "registered (rename_accept a b u) = registered u" "joined_chans (rename_accept a b u) = joined_chans u"
  by (simp_all add: rename_accept_def)

lemma set_nick_inv:
  assumes "user_inv s" and "newnick \<noteq> []" and "find_nick s newnick \<in> {None, Some uid}"
  shows "user_inv (set_nick E uid newnick s)"
proof (cases "map_of (users s) uid")
  case None
  then show ?thesis using assms(1) by (simp add: set_nick_def)
next
  case (Some u)
  note inv = user_invD [OF assms(1)] and fields = set_nick_core_fields [OF assms(1) Some, of newnick]
  let ?f = "\<lambda>u. u\<lparr>nick := newnick, nick_ts := clock s\<rparr>" and ?s1 = "set_nick_core uid u newnick s"
  let ?us = "map_key uid ?f (users s)"
  let ?ren = "rename_accept (to_ascii_lowercase (nick u)) (to_ascii_lowercase newnick)"
  note e1 = edits_intros(1) [of uid ?f] and e2 = edits_intros(2) [of ?ren]
  have dist: "distinct (map fst ?us)" using inv(9) by simp
  have kept: "membership_ok ?us (channels s)" "counts_ok ?us (per_ip s) (per_class s) (per_ip_class s)"
    "accepts_ok ?us (accepted_nicks s)" "index_ok watch ?us (watch_by s)" "index_ok monitor ?us (monitor_by s)"
    "uuids_ok ?us (uuid_local s)" "guard_ok ?us (unreg_count s)"
    by (auto intro: membership_edit [OF e1 _ inv(10)] counts_ok_edit [OF e1 inv(9) _ _ inv(2)]
        accepts_ok_edit [OF e1 inv(9) _ inv(3)] index_ok_edit [OF e1 _ inv(4)] index_ok_edit [OF e1 _ inv(5)]
        uuids_ok_edit [OF e1 _ inv(7)] guard_ok_edit [OF e1 inv(9) _ _ inv(8)])
  have nicks: "nicks_ok ?us (nick_index ?s1)"
    using nicks_ok_rename [OF inv(6) Some assms(2)] assms(3) by (simp add: fields(2) find_nick_def)
  have "user_inv ?s1"
  proof (cases "nick u \<noteq> [] \<and> to_ascii_lowercase (nick u) \<noteq> to_ascii_lowercase newnick")
    case True
    then have us: "users ?s1 = map (\<lambda>(i, v). (i, ?ren v)) ?us" by (simp add: fields(1))
    show ?thesis
      by (rule user_invI; (unfold us fields(4-))?)
        (use kept nicks inv(11) dist fields(3) us in
          \<open>auto intro: membership_edit [OF e2] counts_ok_edit [OF e2] index_ok_edit [OF e2] nicks_ok_edit [OF e2]
            uuids_ok_edit [OF e2] guard_ok_edit [OF e2]\<close>)
  next
    case False
    then have us: "users ?s1 = ?us" by (auto simp: fields(1))
    show ?thesis
      by (rule user_invI; (unfold us fields(4-))?) (use kept nicks inv(11) fields(3) us in simp_all)
  qed
  moreover have "same_tables (set_nick E uid newnick s) ?s1"
    using Some set_nick_tell_tables same_tables_core [OF propagate_nick_core]
    by (simp add: set_nick_def Let_def) (metis same_tables_trans)
  ultimately show ?thesis using same_tables_inv by blast
qed

lemma next_uuid_result:
  assumes "next_uuid s = Some (uu, s')"
  shows "\<exists>k. s' = s\<lparr>uuid_counter := k\<rparr> \<and> \<not> uuid_live s uu"
proof -
  have "case r of (uu, s') \<Rightarrow> \<exists>k. s' = s\<lparr>uuid_counter := k\<rparr> \<and> \<not> uuid_live s uu" if "next_uuid s = Some r" for r
    using that
  proof (rule next_uuid.raw_induct [rotated])
    fix nu :: "server \<Rightarrow> (string \<times> server) option" and s :: server and y :: "string \<times> server"
    let ?s1 = "s\<lparr>uuid_counter := add_u64 (uuid_counter s) 1\<rparr>"
    assume IH: "\<And>s y. nu s = Some y \<Longrightarrow> case y of (uu, s') \<Rightarrow> \<exists>k. s' = s\<lparr>uuid_counter := k\<rparr> \<and> \<not> uuid_live s uu"
      and eq: "(let x = uuid_counter s; s1 = s\<lparr>uuid_counter := add_u64 x 1\<rparr>
          in if \<not> uuid_live s1 (uuid_of s1 x) then Some (uuid_of s1 x, s1) else nu s1) = Some y"
    have live: "uuid_live (s\<lparr>uuid_counter := k\<rparr>) = uuid_live s" for k by (auto simp: uuid_live_def fun_eq_iff)
    show "case y of (uu, s') \<Rightarrow> \<exists>k. s' = s\<lparr>uuid_counter := k\<rparr> \<and> \<not> uuid_live s uu"
    proof (cases "uuid_live ?s1 (uuid_of ?s1 (uuid_counter s))")
      case True
      then have "nu ?s1 = Some y" using eq by (simp add: Let_def)
      from IH [OF this] show ?thesis by (cases y) (auto simp: live)
    next
      case False
      then show ?thesis using eq by (auto simp: Let_def live)
    qed
  qed
  from this [OF assms] show ?thesis by simp
qed

lemma new_user_sel [simp]:
  "uuid (new_user uu addr sec fp brand t) = uu" "nick (new_user uu addr sec fp brand t) = []"
  "accept (new_user uu addr sec fp brand t) = []" "watch (new_user uu addr sec fp brand t) = []"
  "monitor (new_user uu addr sec fp brand t) = []" "joined_chans (new_user uu addr sec fp brand t) = []"
  "conn_class (new_user uu addr sec fp brand t) = None" "ip (new_user uu addr sec fp brand t) = addr"
  "registered (new_user uu addr sec fp brand t) = False"
  by (simp_all add: new_user_def)

text \<open>A fresh record in the user table, with its uuid, its count and (for a puppet) its nick.\<close>

lemma add_user_inv:
  assumes "user_inv s" and "map_of (users s) uid = None" and "map_of (uuid_local s) (uuid u) = None"
    and "conn_class u = None" "accept u = []" "watch u = []" "monitor u = []" "joined_chans u = []"
    and "nick u \<noteq> [] \<Longrightarrow> map_of (nick_index s) (to_ascii_lowercase (nick u)) = None"
    and "users s' = AList.update uid u (users s)" "uuid_local s' = AList.update (uuid u) uid (uuid_local s)"
      "per_ip s' = count_inc (ip u) (per_ip s)" "unreg_count s' = unreg_count s + of_bool (\<not> registered u)"
      "nick_index s' = (if nick u = [] then nick_index s else AList.update (to_ascii_lowercase (nick u)) uid (nick_index s))"
      "channels s' = channels s" "per_class s' = per_class s" "per_ip_class s' = per_ip_class s"
      "accepted_nicks s' = accepted_nicks s" "watch_by s' = watch_by s" "monitor_by s' = monitor_by s"
  shows "user_inv s'"
proof -
  note inv = user_invD [OF assms(1)]
  have "nicks_ok (users s') (nick_index s')"
    using nicks_ok_new [OF inv(6) assms(2)] assms(9,10,14) by (cases "nick u = []") simp_all
  moreover have "membership_ok (users s') (channels s')" "all_alive (channels s')"
    using membership_new [OF inv(10) assms(2)] assms(8) inv(11) by (simp_all add: assms)
  moreover have "counts_ok (users s') (per_ip s') (per_class s') (per_ip_class s')"
    using counts_ok_new [OF inv(2) assms(2,4)] by (simp add: assms)
  moreover have "accepts_ok (users s') (accepted_nicks s')" "index_ok watch (users s') (watch_by s')"
    "index_ok monitor (users s') (monitor_by s')"
    using accepts_ok_new [OF inv(3) assms(2)] index_ok_new [OF inv(4) assms(2)] index_ok_new [OF inv(5) assms(2)]
    by (simp_all add: assms)
  moreover have "uuids_ok (users s') (uuid_local s')" "guard_ok (users s') (unreg_count s')"
    using uuids_ok_new [OF inv(7) assms(2,3)] guard_ok_new [OF inv(8) assms(2,8)] by (simp_all add: assms)
  ultimately show ?thesis by (intro user_invI)
qed

lemma file_conn_inv:
  assumes "user_inv s" and "map_of (users s) uid = None" and "file_conn uid addr sec fp brand s = Some s'"
  shows "user_inv s'"
proof -
  obtain uu s1 where n: "next_uuid s = Some (uu, s1)" using assms(3) by (auto simp: file_conn_def split: option.splits)
  then obtain k where s1: "s1 = s\<lparr>uuid_counter := k\<rparr>" and free: "\<not> uuid_live s uu" using next_uuid_result by blast
  show ?thesis
    using assms(3) free
    by (intro add_user_inv [OF assms(1,2), of "new_user uu addr sec fp brand (clock s)"])
      (auto simp: file_conn_def n s1 uuid_live_def count_connect_def note_connect_def)
qed

lemma introduce_core: "core (introduce_to_links uid s) = core s"
  by (simp add: introduce_to_links_def core_fold split: option.split)

lemma mint_puppet_inv:
  assumes "user_inv s" and "map_of (users s) uid = None" and "mint_puppet uid n id' h rn s = Some s'"
    and "n \<noteq> []" and "find_nick s n = None"
  shows "user_inv s'"
proof -
  obtain uu s1 where nu: "next_uuid s = Some (uu, s1)" using assms(3) by (auto simp: mint_puppet_def split: option.splits)
  then obtain k where s1: "s1 = s\<lparr>uuid_counter := k\<rparr>" and free: "\<not> uuid_live s uu" using next_uuid_result by blast
  let ?u = "(new_user uu ''127.0.0.1'' False None None (clock s))\<lparr>nick := n, ident := id', realname := rn,
     host := h, registered := True, flags := default_flags\<lparr>bot := True\<rparr>\<rparr>"
  let ?s2 = "count_connect ''127.0.0.1'' (s1\<lparr>uuid_local := AList.update uu uid (uuid_local s1),
     users := AList.update uid ?u (users s1), nick_index := AList.update (to_ascii_lowercase n) uid (nick_index s1)\<rparr>)"
  have "user_inv ?s2"
    using free assms(4,5)
    by (intro add_user_inv [OF assms(1,2), of ?u]) (auto simp: s1 uuid_live_def count_connect_def find_nick_def)
  moreover have "s' = introduce_to_links uid ?s2"
    using assms(3) by (simp add: mint_puppet_def nu Let_def s1)
  ultimately show ?thesis using user_inv_core [OF introduce_core] by simp
qed

text \<open>Edits of one user's WATCH, MONITOR and ACCEPT lists, its class, and its registration.\<close>

lemma user_inv_edit:
  assumes "user_inv s" and "users s' = map_key uid f (users s)"
    and "\<And>u. joined_chans (f u) = joined_chans u" "\<And>u. nick (f u) = nick u" "\<And>u. uuid (f u) = uuid u"
    and "counts_ok (users s') (per_ip s') (per_class s') (per_ip_class s')" "accepts_ok (users s') (accepted_nicks s')"
      "index_ok watch (users s') (watch_by s')" "index_ok monitor (users s') (monitor_by s')"
      "guard_ok (users s') (unreg_count s')"
    and "channels s' = channels s" "nick_index s' = nick_index s" "uuid_local s' = uuid_local s"
  shows "user_inv s'"
proof -
  note inv = user_invD [OF assms(1)] and e = edits_intros(1) [of uid f]
  have "membership_ok (users s') (channels s')" "nicks_ok (users s') (nick_index s')" "uuids_ok (users s') (uuid_local s')"
    by (auto simp: assms(2,11-13) intro: membership_edit [OF e assms(3) inv(10)] nicks_ok_edit [OF e assms(4) inv(6)]
        uuids_ok_edit [OF e assms(5) inv(7)])
  then show ?thesis using assms(6-11) inv(11) by (intro user_invI) simp_all
qed

lemma index_ok_map_key:
  assumes "index_ok sel us idx" and "map_of us uid = Some u" and "index_wf idx'"
    and "\<And>n i. index_has idx' n i \<longleftrightarrow> (if i = uid then n \<in> set (sel (f u)) else index_has idx n i)"
  shows "index_ok sel (map_key uid f us) idx'"
  using assms by (auto simp: index_ok_def map_of_map_key)

lemma lists_edit_inv:
  assumes "user_inv s" and "users s' = map_key uid f (users s)"
    and "\<And>u. f u = u\<lparr>watch := watch (f u), monitor := monitor (f u)\<rparr>"
    and "index_ok watch (users s') (watch_by s')" "index_ok monitor (users s') (monitor_by s')"
    and "s' = s\<lparr>users := users s', watch_by := watch_by s', monitor_by := monitor_by s'\<rparr>"
  shows "user_inv s'"
proof -
  note inv = user_invD [OF assms(1)] and e = edits_intros(1) [of uid f]
  have sel: "joined_chans (f u) = joined_chans u" "nick (f u) = nick u" "uuid (f u) = uuid u" "ip (f u) = ip u"
    "conn_class (f u) = conn_class u" "accept (f u) = accept u" "registered (f u) = registered u" for u
    by (subst assms(3), simp)+
  have same: "channels s' = channels s" "per_ip s' = per_ip s" "per_class s' = per_class s"
    "per_ip_class s' = per_ip_class s" "accepted_nicks s' = accepted_nicks s" "nick_index s' = nick_index s"
    "uuid_local s' = uuid_local s" "unreg_count s' = unreg_count s"
    by (subst assms(6), simp)+
  show ?thesis
    by (rule user_inv_edit [OF assms(1,2)])
      (use assms(4,5) in \<open>auto simp: sel same assms(2) intro: counts_ok_edit [OF e inv(9) sel(4,5) inv(2)]
        accepts_ok_edit [OF e inv(9) sel(6) inv(3)] guard_ok_edit [OF e inv(9) sel(7,1) inv(8)]\<close>)
qed

lemma index_ok_has: "index_ok sel us idx \<Longrightarrow> map_of us uid = Some u \<Longrightarrow> index_has idx n uid \<longleftrightarrow> n \<in> set (sel u)"
  by (simp add: index_ok_def)

lemma index_ok_edits:
  assumes "index_ok sel us idx" and "map_of us uid = Some u"
  shows "sel (f u) = sel u @ [low] \<Longrightarrow> index_ok sel (map_key uid f us) (index_add low uid idx)"
    and "sel (f u) = filter (\<lambda>n. n \<noteq> low) (sel u) \<Longrightarrow> index_ok sel (map_key uid f us) (index_remove low uid idx)"
    and "sel (f u) = [] \<Longrightarrow> index_ok sel (map_key uid f us) (fold (\<lambda>n. index_remove n uid) (sel u) idx)"
    and "sel (f u) = sel u \<Longrightarrow> index_ok sel (map_key uid f us) idx"
proof -
  have wf: "index_wf idx" using assms(1) by (simp add: index_ok_def)
  note laws = ridx.has_add [OF wf] ridx.has_remove [OF wf] ridx.has_remove_all [OF wf]
    ridx.wf_add [OF wf] ridx.wf_remove [OF wf] ridx.wf_remove_all [OF wf] index_ok_has [OF assms] wf
  show "sel (f u) = sel u @ [low] \<Longrightarrow> index_ok sel (map_key uid f us) (index_add low uid idx)"
    "sel (f u) = filter (\<lambda>n. n \<noteq> low) (sel u) \<Longrightarrow> index_ok sel (map_key uid f us) (index_remove low uid idx)"
    "sel (f u) = [] \<Longrightarrow> index_ok sel (map_key uid f us) (fold (\<lambda>n. index_remove n uid) (sel u) idx)"
    "sel (f u) = sel u \<Longrightarrow> index_ok sel (map_key uid f us) idx"
    by (auto intro!: index_ok_map_key [OF assms] simp: laws split: if_splits)
qed

lemma filter_length_same: "length (filter P xs) = length xs \<Longrightarrow> filter P xs = xs"
  by (induction xs) (auto dest: order.trans [OF Suc_leI length_filter_le] split: if_splits, metis Suc_n_not_le_n length_filter_le)

lemma watch_index_inv:
  assumes "user_inv s"
  shows "user_inv (watch_index_add uid low s)" "user_inv (watch_index_remove uid low s)"
    "user_inv (watch_index_clear uid s)"
proof -
  note w = user_invD(4) [OF assms] and m = user_invD(5) [OF assms]
  show "user_inv (watch_index_add uid low s)"
    using assms
    by (auto simp: watch_index_add_def update_user_def index_ok_edits [OF w] index_ok_edits(4) [OF m]
        intro!: lists_edit_inv [OF assms, where uid = uid] split: option.split)
  show "user_inv (watch_index_remove uid low s)"
    using assms filter_length_same [of "\<lambda>n. n \<noteq> low"]
    by (auto simp: watch_index_remove_def update_user_def index_ok_edits [OF w] index_ok_edits(4) [OF m] Let_def
        intro!: lists_edit_inv [OF assms, where uid = uid] split: option.split)
  show "user_inv (watch_index_clear uid s)"
    using assms
    by (auto simp: watch_index_clear_def update_user_def index_ok_edits [OF w] index_ok_edits(4) [OF m] Let_def
        intro!: lists_edit_inv [OF assms, where uid = uid] split: option.split)
qed

lemma monitor_index_inv:
  assumes "user_inv s"
  shows "user_inv (monitor_index_add uid low s)" "user_inv (monitor_index_remove uid low s)"
    "user_inv (monitor_index_clear uid s)"
proof -
  note m = user_invD(5) [OF assms] and w = user_invD(4) [OF assms]
  show "user_inv (monitor_index_add uid low s)"
    using assms
    by (auto simp: monitor_index_add_def update_user_def index_ok_edits [OF m] index_ok_edits(4) [OF w]
        intro!: lists_edit_inv [OF assms, where uid = uid] split: option.split)
  show "user_inv (monitor_index_remove uid low s)"
    using assms filter_length_same [of "\<lambda>n. n \<noteq> low"]
    by (auto simp: monitor_index_remove_def update_user_def index_ok_edits [OF m] index_ok_edits(4) [OF w] Let_def
        intro!: lists_edit_inv [OF assms, where uid = uid] split: option.split)
  show "user_inv (monitor_index_clear uid s)"
    using assms
    by (auto simp: monitor_index_clear_def update_user_def index_ok_edits [OF m] index_ok_edits(4) [OF w] Let_def
        intro!: lists_edit_inv [OF assms, where uid = uid] split: option.split)
qed

lemma accept_edit_inv:
  assumes "user_inv s" and "users s' = map_key uid f (users s)" and "\<And>u. f u = u\<lparr>accept := accept (f u)\<rparr>"
    and "accepts_ok (users s') (accepted_nicks s')"
    and "s' = s\<lparr>users := users s', accepted_nicks := accepted_nicks s'\<rparr>"
  shows "user_inv s'"
proof -
  note inv = user_invD [OF assms(1)] and e = edits_intros(1) [of uid f]
  have sel: "joined_chans (f u) = joined_chans u" "nick (f u) = nick u" "uuid (f u) = uuid u" "ip (f u) = ip u"
    "conn_class (f u) = conn_class u" "watch (f u) = watch u" "monitor (f u) = monitor u" "registered (f u) = registered u" for u
    by (subst assms(3), simp)+
  have same: "channels s' = channels s" "per_ip s' = per_ip s" "per_class s' = per_class s"
    "per_ip_class s' = per_ip_class s" "watch_by s' = watch_by s" "monitor_by s' = monitor_by s"
    "nick_index s' = nick_index s" "uuid_local s' = uuid_local s" "unreg_count s' = unreg_count s"
    by (subst assms(5), simp)+
  show ?thesis
    by (rule user_inv_edit [OF assms(1,2)])
      (use assms(4) in \<open>auto simp: sel same assms(2) intro: counts_ok_edit [OF e inv(9) sel(4,5) inv(2)]
        index_ok_edit [OF e sel(6) inv(4)] index_ok_edit [OF e sel(7) inv(5)] guard_ok_edit [OF e inv(9) sel(8,1) inv(8)]\<close>)
qed

lemma accepts_ok_map_key:
  assumes "accepts_ok us acc" and "distinct (map fst us)" and "map_of us uid = Some u" and "counts_wf acc'"
    and "\<And>n. count_get acc n + count_list (accept (f u)) n \<le> count_get acc' n + count_list (accept u) n"
  shows "accepts_ok (map_key uid f us) acc'"
proof -
  have "tally (\<lambda>u. count_list (accept u) n) (map_key uid f us) \<le> count_get acc' n" for n
  proof -
    have "tally (\<lambda>u. count_list (accept u) n) us \<le> count_get acc n" using assms(1) by (simp add: accepts_ok_def)
    then show ?thesis
      using assms(5) [of n] tally_map_key [OF assms(2,3), of "\<lambda>u. count_list (accept u) n" f] by linarith
  qed
  then show ?thesis using assms(4) by (simp add: accepts_ok_def)
qed

lemma accept_add_inv: "user_inv s \<Longrightarrow> user_inv (accept_add uid low s)"
proof -
  assume inv: "user_inv s"
  note ok = user_invD(3,9) [OF inv]
  then have wf: "counts_wf (accepted_nicks s)" by (simp add: accepts_ok_def)
  show ?thesis
    using inv wf ok
    by (cases "map_of (users s) uid")
      (auto simp: accept_add_def update_user_def tab.cnt_inc tab.wf_inc
        intro!: accept_edit_inv [OF inv, where uid = uid] accepts_ok_map_key)
qed

text \<open>Removal takes all copies out of the list but decrements the count once: the count can only be
  too high.\<close>

lemma accept_remove_inv: "user_inv s \<Longrightarrow> user_inv (accept_remove uid low s)"
proof -
  assume inv: "user_inv s"
  note ok = user_invD(3,9) [OF inv]
  then have wf: "counts_wf (accepted_nicks s)" by (simp add: accepts_ok_def)
  show ?thesis
  proof (cases "map_of (users s) uid")
    case (Some u)
    let ?f = "\<lambda>u. u\<lparr>accept := filter (\<lambda>x. x \<noteq> low) (accept u)\<rparr>"
    have some: "count_list (accept u) low \<ge> 1" if "length (accept u) \<noteq> length (filter (\<lambda>x. x \<noteq> low) (accept u))"
    proof -
      have "low \<in> set (accept u)"
      proof (rule ccontr)
        assume "low \<notin> set (accept u)"
        then have "filter (\<lambda>x. x \<noteq> low) (accept u) = accept u" by (auto intro: filter_True)
        then show False using that by simp
      qed
      then show ?thesis by (metis One_nat_def Suc_leI count_list_0_iff gr0I)
    qed
    have "accepts_ok (map_key uid ?f (users s)) (count_dec low (accepted_nicks s))"
      if "length (accept u) \<noteq> length (filter (\<lambda>x. x \<noteq> low) (accept u))"
      using some [OF that] wf
      by (intro accepts_ok_map_key [OF ok Some]) (auto simp: tab.cnt_dec tab.wf_dec count_list_filter)
    moreover have "accepts_ok (map_key uid ?f (users s)) (accepted_nicks s)"
      using wf by (intro accepts_ok_map_key [OF ok Some]) (auto simp: count_list_filter)
    ultimately show ?thesis
      using Some by (auto simp: accept_remove_def update_user_def Let_def intro!: accept_edit_inv [OF inv, where uid = uid])
  qed (use inv in \<open>simp add: accept_remove_def\<close>)
qed

text \<open>A change of class moves one count; the class must really change.\<close>

lemma counts_ok_class:
  assumes "counts_ok us pi pc pic" and "distinct (map fst us)" and "map_of us uid = Some u"
    and "conn_class u \<noteq> Some name" and "\<And>v. ip (f v) = ip v" "\<And>v. conn_class (f v) = Some name"
  shows "counts_ok (map_key uid f us) pi
           (count_inc name (case conn_class u of None \<Rightarrow> pc | Some old \<Rightarrow> count_dec old pc))
           (count_inc (ip u, name) (case conn_class u of None \<Rightarrow> pic | Some old \<Rightarrow> count_dec (ip u, old) pic))"
proof -
  note shift = tally_map_key [OF assms(2,3), of _ f]
  have wf: "counts_wf pi" "counts_wf pc" "counts_wf pic" using assms(1) by (simp_all add: counts_ok_def)
  have pi: "tally (\<lambda>u. of_bool (ip u = a)) (map_key uid f us) = count_get pi a" for a
    using shift [of "\<lambda>u. of_bool (ip u = a)"] assms(1) by (simp add: counts_ok_def assms(5))
  have pc: "tally (\<lambda>u. of_bool (conn_class u = Some c)) (map_key uid f us) + of_bool (conn_class u = Some c)
      = count_get pc c + of_bool (name = c)" for c
    using shift [of "\<lambda>u. of_bool (conn_class u = Some c)"] assms(1) by (simp add: counts_ok_def assms(6))
  have pic: "tally (\<lambda>u. of_bool (ip u = a \<and> conn_class u = Some c)) (map_key uid f us)
      + of_bool (ip u = a \<and> conn_class u = Some c) = count_get pic (a, c) + of_bool (ip u = a \<and> name = c)" for a c
    using shift [of "\<lambda>u. of_bool (ip u = a \<and> conn_class u = Some c)"] assms(1)
    by (simp add: counts_ok_def assms(5,6))
  have low: "tally (\<lambda>u. of_bool (conn_class u = Some c)) (map_key uid f us)
      = count_get pc c - of_bool (conn_class u = Some c) + of_bool (name = c)"
    "tally (\<lambda>u. of_bool (ip u = a \<and> conn_class u = Some c)) (map_key uid f us)
      = count_get pic (a, c) - of_bool (ip u = a \<and> conn_class u = Some c) + of_bool (ip u = a \<and> name = c)" for a c
    using pc [of c] pic [of a c] assms(4) by (cases "name = c"; simp; linarith)+
  show ?thesis
    using assms(4) by (cases "conn_class u") (auto simp: counts_ok_def counts_laws wf pi low split: if_splits)
qed

lemma class_edit_inv:
  assumes "user_inv s" and "users s' = map_key uid f (users s)"
    and "\<And>u. f u = u\<lparr>conn_class := conn_class (f u), registered := registered (f u)\<rparr>"
    and "counts_ok (users s') (per_ip s') (per_class s') (per_ip_class s')" "guard_ok (users s') (unreg_count s')"
    and "s' = s\<lparr>users := users s', per_ip := per_ip s', per_class := per_class s', per_ip_class := per_ip_class s',
             unreg_count := unreg_count s'\<rparr>"
  shows "user_inv s'"
proof -
  note inv = user_invD [OF assms(1)] and e = edits_intros(1) [of uid f]
  have sel: "joined_chans (f u) = joined_chans u" "nick (f u) = nick u" "uuid (f u) = uuid u" "accept (f u) = accept u"
    "watch (f u) = watch u" "monitor (f u) = monitor u" for u
    by (subst assms(3), simp)+
  have same: "channels s' = channels s" "accepted_nicks s' = accepted_nicks s" "watch_by s' = watch_by s"
    "monitor_by s' = monitor_by s" "nick_index s' = nick_index s" "uuid_local s' = uuid_local s"
    by (subst assms(6), simp)+
  show ?thesis
    by (rule user_inv_edit [OF assms(1,2)])
      (use assms(4,5) in \<open>auto simp: sel same assms(2) intro: accepts_ok_edit [OF e inv(9) sel(4) inv(3)]
        index_ok_edit [OF e sel(5) inv(4)] index_ok_edit [OF e sel(6) inv(5)]\<close>)
qed

lemma set_class_inv: "user_inv s \<Longrightarrow> user_inv (set_class uid name s)"
proof -
  assume inv: "user_inv s"
  note ok = user_invD [OF inv]
  show ?thesis
  proof (cases "map_of (users s) uid")
    case (Some u)
    let ?f = "\<lambda>u. u\<lparr>conn_class := Some name\<rparr>"
    have guard: "guard_ok (map_key uid ?f (users s)) (unreg_count s)"
      by (rule guard_ok_edit [OF edits_intros(1) ok(9) _ _ ok(8)]) simp_all
    show ?thesis
    proof (cases "conn_class u = Some name")
      case False
      then show ?thesis
        using counts_ok_class [OF ok(2,9) Some False, of ?f] guard Some
        by (auto simp: set_class_def update_user_def Let_def intro!: class_edit_inv [OF inv, where uid = uid]
            split: option.split)
    qed (use inv Some in \<open>simp add: set_class_def\<close>)
  qed (use inv in \<open>simp add: set_class_def\<close>)
qed

lemma mark_registered_inv: "user_inv s \<Longrightarrow> user_inv (mark_registered uid s)"
proof -
  assume inv: "user_inv s"
  note ok = user_invD [OF inv]
  let ?f = "\<lambda>u. u\<lparr>registered := True\<rparr>"
  have counts: "counts_ok (map_key uid ?f (users s)) (per_ip s) (per_class s) (per_ip_class s)"
    by (rule counts_ok_edit [OF edits_intros(1) ok(9) _ _ ok(2)]) simp_all
  have guard: "guard_ok (map_key uid ?f (users s))
      (unreg_count s - of_bool (case map_of (users s) uid of Some u \<Rightarrow> \<not> registered u | None \<Rightarrow> False))"
  proof (cases "map_of (users s) uid")
    case (Some u)
    then show ?thesis
      using ok(8) tally_map_key [OF ok(9) Some, of "\<lambda>u. of_bool (\<not> registered u)" ?f]
      by (auto simp: guard_ok_def map_of_map_key split: if_splits)
  next
    case None
    then show ?thesis using ok(8) by (simp add: map_key_absent)
  qed
  show ?thesis
    using counts guard
    by (intro class_edit_inv [OF inv, where uid = uid and f = ?f])
      (auto simp: mark_registered_def note_registered_def update_user_def Let_def split: option.splits)
qed

end
