(* ===== verification/XLineLaws.thy ===== *)
theory XLineLaws
  imports XLine UserIndexes
begin

text \<open>
  Laws of the server bans: what is stored is read back, what is set is enforced, what is sent to another
  server is set there.
\<close>

section \<open>Storing and reading back\<close>

lemma from_tag_x_tag [simp]: "from_tag (x_tag k) = Some k"
  by (cases k) (simp_all add: from_tag_def)

lemma x_tag_plain: "CHR '' '' \<notin> set (x_tag k)" "CHR 0x0A \<notin> set (x_tag k)" "x_tag k \<noteq> []"
  by (cases k; simp)+

definition word_ok :: "string \<Rightarrow> bool" where
  "word_ok w \<longleftrightarrow> CHR '' '' \<notin> set w \<and> CHR 0x0A \<notin> set w"

text \<open>What every line a command or a peer can set looks like: the mask and the setter are single words, the
  numbers are 64 bit numbers and the reason is one line.\<close>

definition wf_xline :: "xline \<Rightarrow> bool" where
  "wf_xline x \<longleftrightarrow> word_ok (x_mask x) \<and> word_ok (x_setter x) \<and> x_setter x \<noteq> [] \<and> x_expires x < 2 ^ 64
     \<and> x_set_at x < 2 ^ 64 \<and> CHR 0x0A \<notin> set (x_reason x) \<and> (x_reason x = [] \<or> last (x_reason x) \<noteq> CHR 0x0D)"

lemma digits_not: "\<not> is_ascii_digit c \<Longrightarrow> c \<notin> set (show_nat n)"
  using show_nat_digits [of n] by (auto simp: list_all_iff)

lemma show_nat_word [simp]: "CHR '' '' \<notin> set (show_nat n)" "CHR 0x0A \<notin> set (show_nat n)" "CHR '':'' \<notin> set (show_nat n)"
  by (rule digits_not, simp add: is_ascii_digit_def)+

lemma all_digits_show [simp]: "all_digits (show_nat n)"
  by (simp add: all_digits_def show_nat_digits)

lemma xline_text_words:
  "wf_xline x \<Longrightarrow> split_char (CHR '' '') (xline_text x) =
     x_tag (x_kind x) # x_mask x # show_nat (x_expires x) # show_nat (x_set_at x) # x_setter x
     # split_char (CHR '' '') (x_reason x)"
  by (simp add: xline_text_def wf_xline_def word_ok_def split_char_append x_tag_plain)

lemma parse_db_line_text: "wf_xline x \<Longrightarrow> parse_db_line (xline_text x) = Some x"
  by (simp add: parse_db_line_def xline_text_words Let_def or_zero_def) (simp add: wf_xline_def or_zero_def)

lemma xline_text_line: "wf_xline x \<Longrightarrow> CHR 0x0A \<notin> set (xline_text x) \<and> xline_text x \<noteq> [] \<and> last (xline_text x) \<noteq> CHR 0x0D"
  by (auto simp: xline_text_def wf_xline_def word_ok_def x_tag_plain)

lemma split_lines:
  "(\<And>l. l \<in> set ls \<Longrightarrow> d \<notin> set l) \<Longrightarrow> split_char d (concat (map (\<lambda>l. l @ [d]) ls)) = ls @ [[]]"
  by (induction ls) (simp_all add: split_char_append)

lemma str_lines_text:
  assumes "\<And>l. l \<in> set ls \<Longrightarrow> CHR 0x0A \<notin> set l \<and> l \<noteq> [] \<and> last l \<noteq> CHR 0x0D"
  shows "str_lines (concat (map (\<lambda>l. l @ [CHR 0x0A]) ls)) = ls"
proof -
  have "map (\<lambda>l. if l \<noteq> [] \<and> last l = CHR 0x0D then butlast l else l) ls = ls"
    using assms by (intro map_idI) auto
  then show ?thesis using assms by (simp add: str_lines_def split_lines Let_def)
qed

lemma xlines_text_lines:
  assumes "list_all wf_xline xs"
  shows "str_lines (xlines_text xs) = map xline_text xs"
proof -
  have "xlines_text xs = concat (map (\<lambda>l. l @ [CHR 0x0A]) (map xline_text xs))"
    by (simp add: xlines_text_def comp_def)
  moreover have "CHR 0x0A \<notin> set l \<and> l \<noteq> [] \<and> last l \<noteq> CHR 0x0D" if "l \<in> set (map xline_text xs)" for l
    using assms that by (auto simp: list_all_iff xline_text_line)
  ultimately show ?thesis using str_lines_text by metis
qed

lemma push_xline_fields [simp]: "clock (push_xline x s) = clock s"
  "xlines (push_xline x s) = xlines s @ (if x_live x (clock s) then [x] else [])"
  by (auto simp: push_xline_def x_live_def)

lemma fold_push_xlines:
  "xlines (fold push_xline xs s) = xlines s @ filter (\<lambda>x. x_live x (clock s)) xs \<and> clock (fold push_xline xs s) = clock s"
  by (induction xs arbitrary: s) auto

lemma load_text_xlines:
  assumes "list_all wf_xline xs"
  shows "xlines (load_xlines_text (Some (xlines_text xs)) s) = xlines s @ filter (\<lambda>x. x_live x (clock s)) xs"
proof -
  have "load_xlines_text (Some (xlines_text xs)) s = fold push_xline xs s"
    unfolding load_xlines_text_def xlines_text_lines [OF assms] option.case fold_map comp_def
    by (rule fold_cong) (use assms in \<open>auto simp: list_all_iff parse_db_line_text\<close>)
  then show ?thesis by (simp add: fold_push_xlines)
qed

text \<open>One line per kind and mask: the invariant of the list.\<close>

definition xline_key :: "xline \<Rightarrow> xkind \<times> string" where
  "xline_key x = (x_kind x, x_mask x)"

lemma x_tag_inject [simp]: "x_tag a = x_tag b \<longleftrightarrow> a = b"
  by (metis from_tag_x_tag option.inject)

lemma keep_first_fresh:
  "distinct (map xline_key xs) \<Longrightarrow> (\<And>x. x \<in> set xs \<Longrightarrow> (x_tag (x_kind x), x_mask x) \<notin> set seen)
     \<Longrightarrow> keep_first seen xs = xs"
proof (induction xs arbitrary: seen)
  case (Cons x xs)
  have "xline_key y \<noteq> xline_key x" if "y \<in> set xs" for y
    using Cons.prems(1) imageI [OF that, of xline_key] by auto
  then have "keep_first ((x_tag (x_kind x), x_mask x) # seen) xs = xs"
    using Cons.prems by (intro Cons.IH) (auto simp: xline_key_def)
  then show ?case using Cons.prems(2) by (simp add: Let_def)
qed simp

lemma keep_first_keys:
  "distinct (map xline_key (keep_first seen xs))
   \<and> (\<forall>x \<in> set (keep_first seen xs). x \<in> set xs \<and> (x_tag (x_kind x), x_mask x) \<notin> set seen)"
proof (induction xs arbitrary: seen)
  case (Cons x xs)
  let ?k = "(x_tag (x_kind x), x_mask x)"
  have "xline_key x \<notin> xline_key ` set (keep_first (?k # seen) xs)"
    using Cons.IH [of "?k # seen"] by (fastforce simp: xline_key_def)
  then show ?case using Cons.IH [of seen] Cons.IH [of "?k # seen"] by (simp add: Let_def)
qed simp

lemma keep_first_covers:
  "x \<in> set xs \<Longrightarrow> (x_tag (x_kind x), x_mask x) \<notin> set seen \<Longrightarrow> xline_key x \<in> xline_key ` set (keep_first seen xs)"
proof (induction xs arbitrary: seen)
  case (Cons y xs)
  show ?case
  proof (cases "xline_key x = xline_key y")
    case True
    then show ?thesis using Cons.prems(2) by (simp add: Let_def xline_key_def)
  next
    case False
    then show ?thesis using Cons by (auto simp: Let_def xline_key_def)
  qed
qed simp

interpretation save_xlines: output_op save_xlines
  by unfold_locales (simp add: save_xlines_def)


lemma load_xlines_keys: "distinct (map xline_key (xlines (load_xlines rows file answer s)))"
  using keep_first_keys [of "[]"] by (simp add: load_xlines_def Let_def)

section \<open>Enforcing\<close>

definition settings :: "server \<Rightarrow> xline list \<times> nat \<times> string \<times> (uid \<times> link) list \<times> bool \<times> (string \<times> string list) list
    \<times> (string \<times> remote_user) list \<times> (string \<times> remote_server) list" where
  "settings s = (xlines s, clock s, sid s, links s, mode_sudo s, raw_config s, remote_users s, servers s)"

lemma settings_steps:
  "settings (count_disconnect ip' cl s) = settings s" "settings (note_removed_unreg s) = settings s"
  "settings (drop_indexes uid u s) = settings s" "settings (push_whowas n i h r a s) = settings s"
  "settings (free_nick u s) = settings s" "settings (quit_channels uid u reason s) = settings s"
  "settings (propagate line ex s) = settings s" "settings (publish_event evt s) = settings s"
  "settings (s\<lparr>users := us\<rparr>) = settings s"
  by (simp_all add: settings_def user_op_defs scrub_accepts_def Let_def split: option.split)

lemma remove_user_settings: "settings (remove_user uid reason s) = settings s"
  by (simp add: remove_user_def Let_def settings_steps split: option.split)

lemma remove_user_frame [simp]:
  "xlines (remove_user uid reason s) = xlines s" "clock (remove_user uid reason s) = clock s"
  "sid (remove_user uid reason s) = sid s" "links (remove_user uid reason s) = links s"
  "mode_sudo (remove_user uid reason s) = mode_sudo s" "raw_config (remove_user uid reason s) = raw_config s"
  "remote_users (remove_user uid reason s) = remote_users s" "servers (remove_user uid reason s) = servers s"
  using remove_user_settings [of uid reason s] by (simp_all add: settings_def)

text \<open>Who a user is to the bans; another user's departure does not change it.\<close>

definition ban_id :: "user \<Rightarrow> bool \<times> string \<times> string \<times> string" where
  "ban_id u = (registered u, ident u, host u, ip u)"

lemma ban_id_forget [simp]: "ban_id (forget_accept low u) = ban_id u"
  by (simp add: ban_id_def forget_accept_def)

lemma remove_user_others:
  assumes "user_inv s"
  shows "map_option ban_id (map_of (users (remove_user uid reason s)) i)
    = (if i = uid then None else map_option ban_id (map_of (users s) i))"
proof (cases "map_of (users s) uid")
  case None
  then show ?thesis by (simp add: remove_user_def)
next
  case (Some u)
  then show ?thesis
    by (simp add: remove_user_fields [OF assms Some] map_of_map_values delete_conv' option.map_comp comp_def
        del: map_of_eq_Some_iff)
qed

lemma refuse_banned_eq:
  "\<exists>t. core t = core s \<and> refuse_banned uid reason s = remove_user uid reason t"
  unfolding refuse_banned_def Let_def
  by (rule exI [of _ "send uid (''ERROR :'' @ trf (catalog_of (numeric uid ERR_YOUREBANNEDCREEP ('':'' @ reason) s))
        ''Closing link: ({0})'' [reason]) (numeric uid ERR_YOUREBANNEDCREEP ('':'' @ reason) s)"]) simp

lemma refuse_banned_inv: "user_inv s \<Longrightarrow> user_inv (refuse_banned uid reason s)"
  using refuse_banned_eq [of s uid reason] user_inv_core [of _ s] remove_user_inv by metis

lemma refuse_banned_frame [simp]:
  "xlines (refuse_banned uid reason s) = xlines s" "clock (refuse_banned uid reason s) = clock s"
  "sid (refuse_banned uid reason s) = sid s" "links (refuse_banned uid reason s) = links s"
  "mode_sudo (refuse_banned uid reason s) = mode_sudo s" "raw_config (refuse_banned uid reason s) = raw_config s"
  "remote_users (refuse_banned uid reason s) = remote_users s" "servers (refuse_banned uid reason s) = servers s"
  by (simp_all add: refuse_banned_def Let_def)

lemma refuse_banned_others:
  assumes "user_inv s"
  shows "map_option ban_id (map_of (users (refuse_banned uid reason s)) i)
    = (if i = uid then None else map_option ban_id (map_of (users s) i))"
proof -
  obtain t where t: "core t = core s" "refuse_banned uid reason s = remove_user uid reason t"
    using refuse_banned_eq by blast
  have "user_inv t" using assms user_inv_core [OF t(1)] by simp
  then show ?thesis using remove_user_others core_eqD(9) [OF t(1)] by (simp add: t(2))
qed

lemma fold_refuse:
  "user_inv s \<Longrightarrow> s' = fold (\<lambda>(uid, reason). refuse_banned uid reason) vs s \<Longrightarrow>
    user_inv s' \<and> xlines s' = xlines s \<and> clock s' = clock s \<and> sid s' = sid s \<and> links s' = links s
    \<and> mode_sudo s' = mode_sudo s \<and> raw_config s' = raw_config s \<and> remote_users s' = remote_users s
    \<and> servers s' = servers s
    \<and> map_option ban_id (map_of (users s') i) = (if i \<in> fst ` set vs then None else map_option ban_id (map_of (users s) i))"
proof (induction vs arbitrary: s)
  case (Cons v vs)
  obtain uid reason where v: "v = (uid, reason)" by (cases v)
  then have s': "s' = fold (\<lambda>(uid, reason). refuse_banned uid reason) vs (refuse_banned uid reason s)"
    using Cons.prems(2) by simp
  show ?case using Cons.IH [OF refuse_banned_inv [OF Cons.prems(1)] s']
    by (simp add: v refuse_banned_others [OF Cons.prems(1)])
qed simp

lemma fold_refuse_const:
  "fold (\<lambda>uid. refuse_banned uid reason) us = fold (\<lambda>(uid, reason). refuse_banned uid reason) (map (\<lambda>u. (u, reason)) us)"
  by (simp add: fold_map comp_def)

text \<open>A user is banned when an exemption does not cover it and a K-, G- or Z-line does.\<close>

definition banned :: "env \<Rightarrow> server \<Rightarrow> user \<Rightarrow> bool" where
  "banned E s u \<longleftrightarrow> \<not> is_exempt E s (ident u) (host u) (ip u)
     \<and> (\<exists>kind \<in> {Kline, Gline, Zline}. xmatch E s kind (ident u @ ''@'' @ host u) (ip u))"

lemma first_ban_None: "first_ban E s uh ip' ks = None \<longleftrightarrow> (\<forall>k \<in> set ks. \<not> xmatch E s k uh ip')"
  by (induction ks) (simp_all split: prod.split)

lemma matched_xline_iff: "matched_xline E s (ident u) (host u) (ip u) \<noteq> None \<longleftrightarrow> banned E s u"
  unfolding matched_xline_def banned_def if_split [of "\<lambda>x. x \<noteq> None"] first_ban_None by auto

lemma banned_cong:
  "xlines s' = xlines s \<Longrightarrow> clock s' = clock s \<Longrightarrow> ban_id u' = ban_id u \<Longrightarrow> banned E s' u' = banned E s u"
  by (simp add: banned_def is_exempt_def xmatch_def ban_id_def)

lemma xline_victims_iff:
  assumes "distinct (map fst (users s))"
  shows "uid \<in> fst ` set (xline_victims E s) \<longleftrightarrow> (\<exists>u. map_of (users s) uid = Some u \<and> registered u \<and> banned E s u)"
  using assms
  by (force simp: xline_victims_def List.map_filter_def matched_xline_iff [symmetric] map_of_eq_Some_iff image_iff
      split: option.splits)

lemma enforce_xlines_effect:
  assumes "user_inv s" and s': "s' = enforce_xlines E s"
  shows "user_inv s'" "xlines s' = xlines s" "clock s' = clock s" "sid s' = sid s" "links s' = links s"
    "remote_users s' = remote_users s" "servers s' = servers s" "mode_sudo s' = mode_sudo s" "raw_config s' = raw_config s"
    "map_option ban_id (map_of (users s') i)
      = (case map_of (users s) i of
           None \<Rightarrow> None
         | Some u \<Rightarrow> if registered u \<and> banned E s u then None else Some (ban_id u))"
proof -
  note eff = fold_refuse [OF assms(1) s' [unfolded enforce_xlines_def], of i]
  then show "user_inv s'" "xlines s' = xlines s" "clock s' = clock s" "sid s' = sid s" "links s' = links s"
    "remote_users s' = remote_users s" "servers s' = servers s" "mode_sudo s' = mode_sudo s" "raw_config s' = raw_config s"
    by blast+
  show "map_option ban_id (map_of (users s') i)
      = (case map_of (users s) i of
           None \<Rightarrow> None
         | Some u \<Rightarrow> if registered u \<and> banned E s u then None else Some (ban_id u))"
    using eff xline_victims_iff [OF user_invD(9) [OF assms(1)], of i E]
    by (auto split: option.split simp del: map_of_eq_Some_iff)
qed

section \<open>The operations\<close>

definition new_xline :: "xkind \<Rightarrow> string \<Rightarrow> nat \<Rightarrow> string \<Rightarrow> string \<Rightarrow> nat \<Rightarrow> xline" where
  "new_xline kind msk duration who reason set_at =
     \<lparr>x_kind = kind, x_mask = msk, x_reason = reason, x_setter = who,
      x_expires = (if duration = 0 then 0 else sat_add set_at duration), x_set_at = set_at\<rparr>"

definition with_xline :: "xline \<Rightarrow> xline list \<Rightarrow> xline list" where
  "with_xline x xs = filter (\<lambda>y. xline_key y \<noteq> xline_key x) xs @ [x]"

lemma with_xline_keys: "distinct (map xline_key xs) \<Longrightarrow> distinct (map xline_key (with_xline x xs))"
  by (auto simp: with_xline_def distinct_map_filter)

lemma add_xline_at_eq:
  "\<exists>t. core t = core (s\<lparr>xlines := with_xline (new_xline kind msk duration who reason set_at) (xlines s)\<rparr>)
     \<and> add_xline_at E kind msk duration who reason set_at s
        = publish_event [''xline'', x_tag kind, msk, who, reason] (enforce_xlines E t)"
proof -
  have eq: "filter (\<lambda>x. \<not> (x_kind x = kind \<and> x_mask x = msk)) (xlines s)
      @ [\<lparr>x_kind = kind, x_mask = msk, x_reason = reason, x_setter = who,
          x_expires = (if duration = 0 then 0 else sat_add set_at duration), x_set_at = set_at\<rparr>]
    = with_xline (new_xline kind msk duration who reason set_at) (xlines s)"
    by (simp add: with_xline_def new_xline_def xline_key_def)
  show ?thesis
    unfolding add_xline_at_def Let_def eq
    by (rule exI, rule conjI [OF _ refl]) (simp only: save_xlines.core_frame snotice_c.core_frame)
qed

lemma add_xline_at_effect:
  assumes inv: "user_inv s" and s': "s' = add_xline_at E kind msk duration who reason set_at s"
    and xs: "xs = with_xline (new_xline kind msk duration who reason set_at) (xlines s)"
  shows "user_inv s'" "xlines s' = xs" "clock s' = clock s" "sid s' = sid s" "links s' = links s"
    "remote_users s' = remote_users s" "servers s' = servers s" "mode_sudo s' = mode_sudo s" "raw_config s' = raw_config s"
    "map_option ban_id (map_of (users s') i)
      = (case map_of (users s) i of
           None \<Rightarrow> None
         | Some u \<Rightarrow> if registered u \<and> banned E s' u then None else Some (ban_id u))"
proof -
  obtain t where t: "core t = core (s\<lparr>xlines := xs\<rparr>)"
      "s' = publish_event [''xline'', x_tag kind, msk, who, reason] (enforce_xlines E t)"
    using add_xline_at_eq unfolding s' xs by blast
  have invt: "user_inv t"
    using inv user_inv_cong [of "s\<lparr>xlines := xs\<rparr>" s] user_inv_core [OF t(1)] by simp
  note eff = enforce_xlines_effect [OF invt refl, of E] and same = core_eqD [OF t(1)]
  show "user_inv s'" using eff(1) user_inv_core [of s' "enforce_xlines E t"] by (simp add: t(2))
  show "xlines s' = xs" "clock s' = clock s" "sid s' = sid s" "links s' = links s"
    "remote_users s' = remote_users s" "servers s' = servers s" "mode_sudo s' = mode_sudo s" "raw_config s' = raw_config s"
    by (simp_all add: t(2) eff same)
  have b: "banned E t = banned E s'"
    by (rule ext, rule banned_cong) (simp_all add: t(2) eff)
  have "users s' = users (enforce_xlines E t)" by (simp add: t(2))
  then show "map_option ban_id (map_of (users s') i)
      = (case map_of (users s) i of
           None \<Rightarrow> None
         | Some u \<Rightarrow> if registered u \<and> banned E s' u then None else Some (ban_id u))"
    using eff(10) [of i] same(9) unfolding b by simp
qed

lemma remove_xline_effect:
  "core (snd (remove_xline E kind msk remover s))
     = core (s\<lparr>xlines := filter (\<lambda>x. \<not> (x_kind x = kind \<and> eq_ignore_ascii_case (x_mask x) msk)) (xlines s)\<rparr>)"
  by (simp add: remove_xline_def Let_def split: prod.split)

lemma purge_xlines_effect: "core (purge_xlines E s) = core (s\<lparr>xlines := filter (\<lambda>x. x_live x (clock s)) (xlines s)\<rparr>)"
proof (cases "filter (\<lambda>x. x_expires x \<noteq> 0 \<and> x_expires x \<le> clock s) (xlines s) = []")
  case True
  then have "filter (\<lambda>x. x_live x (clock s)) (xlines s) = xlines s"
    by (auto simp: filter_empty_conv x_live_def intro!: filter_True)
  then show ?thesis using True by (simp add: purge_xlines_def Let_def)
next
  case False
  then show ?thesis by (simp add: purge_xlines_def Let_def core_fold)
qed

lemma xlines_edit_inv: "user_inv s \<Longrightarrow> core t = core (s\<lparr>xlines := xs\<rparr>) \<Longrightarrow> user_inv t"
  using user_inv_core [of t "s\<lparr>xlines := xs\<rparr>"] user_inv_cong [of "s\<lparr>xlines := xs\<rparr>" s] by simp

lemma remove_xline_inv: "user_inv s \<Longrightarrow> user_inv (snd (remove_xline E kind msk remover s))"
  by (rule xlines_edit_inv [OF _ remove_xline_effect])

lemma purge_xlines_inv: "user_inv s \<Longrightarrow> user_inv (purge_xlines E s)"
  by (rule xlines_edit_inv [OF _ purge_xlines_effect])

lemma enforce_rline_inv: "user_inv s \<Longrightarrow> user_inv (enforce_rline pattern reason s)"
  using fold_refuse [of s] unfolding enforce_rline_def fold_refuse_const by blast

lemma add_xline_inv: "user_inv s \<Longrightarrow> user_inv (add_xline_at E kind msk duration who reason set_at s)"
  by (rule add_xline_at_effect(1) [OF _ refl refl])

interpretation propagate_addline: output_op "propagate_addline kind msk who duration reason" for kind msk who duration reason
  by unfold_locales (simp add: propagate_addline_def)

interpretation propagate_delline: output_op "propagate_delline kind msk" for kind msk
  by unfold_locales (simp add: propagate_delline_def)

interpretation notice_to: output_op "notice_to uid n m" for uid n m
  by unfold_locales (simp add: notice_to_def)

interpretation burst_xlines: output_op "burst_xlines link_uid" for link_uid
  by unfold_locales (simp add: burst_xlines_def core_fold)

lemma user_inv_out [simp]:
  "user_inv (propagate line ex s) = user_inv s" "user_inv (propagate_addline kind msk who duration reason s) = user_inv s"
  "user_inv (propagate_delline kind msk s) = user_inv s" "user_inv (notice_to uid n m s) = user_inv s"
  by (rule user_inv_core, simp)+

lemma require_oper_inv: "require_oper uid s = (b, s1) \<Longrightarrow> user_inv s1 = user_inv s"
  using user_inv_core [OF core_require_oper, of uid s] by simp

lemma remove_xline_result: "remove_xline E kind msk remover s = (b, s1) \<Longrightarrow> user_inv s \<Longrightarrow> user_inv s1"
  using remove_xline_inv [of s E kind msk remover] by simp

lemma ban_commands_inv:
  assumes "user_inv s"
  shows "user_inv (snd (do_xline E uid ps kind s))" "user_inv (snd (rline_handle E uid ps s))"
    "user_inv (link_addline_recv E via msg s)" "user_inv (link_delline_recv E via msg s)"
    "user_inv (link_svshold E via msg s)"
proof -
  show "user_inv (snd (do_xline E uid ps kind s))"
    using assms
    by (auto simp: do_xline_def Let_def add_xline_def add_xline_inv split: prod.split bool.split
        dest!: require_oper_inv remove_xline_result)
  show "user_inv (snd (rline_handle E uid ps s))"
    using assms
    by (auto simp: rline_handle_def Let_def add_xline_def add_xline_inv enforce_rline_inv
        split: prod.split bool.split option.split sum.split dest!: require_oper_inv remove_xline_result)
  show "user_inv (link_addline_recv E via msg s)" "user_inv (link_svshold E via msg s)"
    using assms
    by (auto simp: link_addline_recv_def link_svshold_def Let_def add_xline_def add_xline_inv remove_xline_inv
        split: list.split option.split)
  show "user_inv (link_delline_recv E via msg s)"
    using assms
    by (auto simp: link_delline_recv_def split: list.split option.split prod.split bool.split dest: remove_xline_result)
qed

end
