(* ===== verification/Lifecycle.thy ===== *)
theory Lifecycle
  imports XLineLaws
begin

text \<open>
  The server as a transition system: connections come and go, register, change nick, edit their lists,
  join, leave and rename channels, operators and peers set and lift bans, and the timer purges.  Every reachable state satisfies the
  membership invariant and keeps every derived table in step with the user table.
\<close>

section \<open>Channel operations and the user tables\<close>

text \<open>A channel operation may change the channels of a registered user, and nothing else about the
  users.\<close>

definition roster :: "user \<Rightarrow> user \<Rightarrow> bool" where
  "roster u v \<longleftrightarrow> v = u\<lparr>joined_chans := joined_chans v, invited := invited v\<rparr>
     \<and> (\<not> registered u \<longrightarrow> joined_chans v = joined_chans u)"

definition same_people :: "server \<Rightarrow> server \<Rightarrow> bool" where
  "same_people a b \<longleftrightarrow> list_all2 (\<lambda>(i, u) (j, v). i = j \<and> roster u v) (users a) (users b)
     \<and> per_ip a = per_ip b \<and> per_class a = per_class b
     \<and> per_ip_class a = per_ip_class b \<and> accepted_nicks a = accepted_nicks b \<and> watch_by a = watch_by b
     \<and> monitor_by a = monitor_by b \<and> nick_index a = nick_index b \<and> uuid_local a = uuid_local b
     \<and> unreg_count a = unreg_count b"

lemma roster_refl [simp]: "roster u u"
  by (simp add: roster_def)

lemma roster_sel:
  assumes "roster u v"
  shows "ip v = ip u" "conn_class v = conn_class u" "accept v = accept u" "watch v = watch u"
    "monitor v = monitor u" "nick v = nick u" "uuid v = uuid u" "registered v = registered u"
proof -
  from assms have v: "v = u\<lparr>joined_chans := joined_chans v, invited := invited v\<rparr>" by (simp add: roster_def)
  show "ip v = ip u" "conn_class v = conn_class u" "accept v = accept u" "watch v = watch u"
    "monitor v = monitor u" "nick v = nick u" "uuid v = uuid u" "registered v = registered u"
    by (subst v, simp)+
qed

lemma roster_unreg: "roster u v \<Longrightarrow> \<not> registered u \<Longrightarrow> joined_chans v = joined_chans u"
  by (simp add: roster_def)

lemma roster_trans: "roster u v \<Longrightarrow> roster v w \<Longrightarrow> roster u w"
proof -
  assume uv: "roster u v" and vw: "roster v w"
  then have v: "v = u\<lparr>joined_chans := joined_chans v, invited := invited v\<rparr>"
    and w: "w = v\<lparr>joined_chans := joined_chans w, invited := invited w\<rparr>" by (simp_all add: roster_def)
  have "v\<lparr>joined_chans := a, invited := b\<rparr> = u\<lparr>joined_chans := a, invited := b\<rparr>" for a b by (subst v) simp
  with w have "w = u\<lparr>joined_chans := joined_chans w, invited := invited w\<rparr>" by simp
  moreover have "joined_chans w = joined_chans u" if "\<not> registered u"
    using roster_unreg [OF uv that] roster_unreg [OF vw] roster_sel(8) [OF uv] that by simp
  ultimately show "roster u w" unfolding roster_def by blast
qed

lemma same_people_refl [simp]: "same_people s s"
  by (auto simp: same_people_def list_all2_same)

lemma same_people_trans: "same_people a b \<Longrightarrow> same_people b c \<Longrightarrow> same_people a c"
  by (auto simp: same_people_def intro: list_all2_trans [rotated] roster_trans)

lemma same_people_tables: "same_tables b a \<or> same_tables a b \<Longrightarrow> same_people a b"
  by (auto simp: same_people_def same_tables_def list_all2_same)

lemma same_people_core: "core a = core b \<Longrightarrow> same_people a b"
  by (intro same_people_tables disjI2 same_tables_core)

lemma people_tally:
  assumes "list_all2 (\<lambda>(i, u) (j, v). i = j \<and> roster u v) us vs" and "\<And>u v. roster u v \<Longrightarrow> w v = w u"
  shows "tally w vs = tally w us"
  using assms(1) by (induction) (auto simp: assms(2))

lemma people_lookup:
  assumes "list_all2 (\<lambda>(i, u) (j, v). i = j \<and> roster u v) us vs"
  shows "rel_option roster (map_of us i) (map_of vs i)" "map fst vs = map fst us"
  using assms by (induction) auto

lemma people_ex:
  assumes "list_all2 (\<lambda>(i, u) (j, v). i = j \<and> roster u v) us vs" and "\<And>u v. roster u v \<Longrightarrow> P v = P u"
  shows "(\<exists>v. map_of vs i = Some v \<and> P v) \<longleftrightarrow> (\<exists>u. map_of us i = Some u \<and> P u)"
  using people_lookup(1) [OF assms(1), of i] assms(2) by (cases "map_of us i"; cases "map_of vs i") auto

lemma same_people_inv:
  assumes "same_people a b" and "user_inv a" and "chan_inv b"
  shows "user_inv b"
proof -
  note inv = user_invD [OF assms(2)]
  have rel: "list_all2 (\<lambda>(i, u) (j, v). i = j \<and> roster u v) (users a) (users b)" using assms(1) by (simp add: same_people_def)
  note tally = people_tally [OF rel] and ex = people_ex [OF rel]
  have same: "per_ip b = per_ip a" "per_class b = per_class a" "per_ip_class b = per_ip_class a"
    "accepted_nicks b = accepted_nicks a" "watch_by b = watch_by a" "monitor_by b = monitor_by a"
    "nick_index b = nick_index a" "uuid_local b = uuid_local a" "unreg_count b = unreg_count a"
    using assms(1) by (simp_all add: same_people_def)
  have "counts_ok (users b) (per_ip b) (per_class b) (per_ip_class b)"
    using inv(2) unfolding counts_ok_def same by (simp add: tally roster_sel)
  moreover have "accepts_ok (users b) (accepted_nicks b)"
    using inv(3) unfolding accepts_ok_def same by (simp add: tally roster_sel)
  moreover have "index_ok watch (users b) (watch_by b)" "index_ok monitor (users b) (monitor_by b)"
    using inv(4,5) unfolding index_ok_def same by (simp_all add: ex roster_sel)
  moreover have "nicks_ok (users b) (nick_index b)" "uuids_ok (users b) (uuid_local b)"
    using inv(6,7) unfolding nicks_ok_def uuids_ok_def same by (simp_all add: ex roster_sel)
  moreover have "guard_ok (users b) (unreg_count b)"
  proof -
    have "joined_chans v = []" if v: "map_of (users b) i = Some v" "\<not> registered v" for i v
    proof -
      obtain u where "map_of (users a) i = Some u" "roster u v"
        using people_lookup(1) [OF rel, of i] v(1) by (cases "map_of (users a) i") auto
      then show ?thesis using inv(8) v(2) roster_sel(8) roster_unreg by (metis guard_ok_def)
    qed
    then show ?thesis using inv(8) unfolding guard_ok_def same by (simp add: tally roster_sel)
  qed
  ultimately show ?thesis using assms(3) by (simp add: user_inv_def)
qed

lemma same_people_update_user:
  assumes "\<And>u. map_of (users s) uid = Some u \<Longrightarrow> roster u (f u)" and "distinct (map fst (users s))"
  shows "same_people s (update_user uid f s)"
proof -
  have "roster u (if i = uid then f u else u)" if "(i, u) \<in> set (users s)" for i u
    using assms that by auto
  then have "list_all2 (\<lambda>(i, u) (j, v). i = j \<and> roster u v) (users s) (map_key uid f (users s))"
    by (auto simp: map_key_def list_all2_map2 intro: list_all2_refl [THEN list_all2_mono] list.rel_refl_strong)
  then show ?thesis by (simp add: same_people_def update_user_def)
qed

lemma same_people_fields [simp]:
  "same_people s (update_chan key f t) = same_people s t" "same_people s (update_member key uid g t) = same_people s t"
  "same_people s (reap t) = same_people s t" "same_people s (t\<lparr>channels := c\<rparr>) = same_people s t"
  "same_people s (t\<lparr>redir_depth := d\<rparr>) = same_people s t" "same_people s (t\<lparr>in_redirect := b\<rparr>) = same_people s t"
  "same_people s (t\<lparr>events := e\<rparr>) = same_people s t" "same_people s (t\<lparr>msgid_counter := n\<rparr>) = same_people s t"
  "same_people s (t\<lparr>history_store := h\<rparr>) = same_people s t" "same_people s (t\<lparr>meta_store := m\<rparr>) = same_people s t"
  by (simp_all add: same_people_def update_chan_def update_member_def reap_def)

lemma same_people_out: "core a = core b \<Longrightarrow> same_people s a = same_people s b"
  using same_people_core same_people_trans by metis

text \<open>Leaving keeps the rest: only a listed channel is dropped, so unregistered users lose nothing.\<close>

lemma roster_leave: "key \<notin> set (joined_chans u) \<or> registered u \<Longrightarrow> roster u (u\<lparr>joined_chans := set_remove key (joined_chans u)\<rparr>)"
  by (auto simp: roster_def set_remove_def intro: filter_True)

lemma roster_join: "registered u \<Longrightarrow> roster u (u\<lparr>joined_chans := j, invited := i\<rparr>)"
  by (simp add: roster_def)

lemma registered_of_member:
  assumes "user_inv s" and "map_of (users s) i = Some u" and "key \<in> set (joined_chans u)"
  shows "registered u"
  using user_invD(8) [OF assms(1)] assms(2,3) by (metis empty_iff empty_set guard_ok_def)

lemma drop_membership_people:
  assumes "user_inv s" and "same_people s s1" and "users s1 = users s"
  shows "same_people s (drop_membership uid key s1)"
proof -
  let ?s2 = "update_chan key (\<lambda>c. c\<lparr>members := AList.delete uid (members c)\<rparr>) s1"
  have "same_people ?s2 (update_user uid (\<lambda>u. u\<lparr>joined_chans := set_remove key (joined_chans u)\<rparr>) ?s2)"
    by (rule same_people_update_user)
      (use assms(3) user_invD(9) [OF assms(1)] registered_of_member [OF assms(1)] roster_leave in auto)
  then show ?thesis unfolding drop_membership_def using same_people_trans [of s ?s2] assms(2) by simp
qed

lemma output_people [simp]:
  "same_people s (send uid line t) = same_people s t" "same_people s (to_channel key line ex t) = same_people s t"
  "same_people s (to_channel_vis key line v t) = same_people s t"
  "same_people s (propagate_part uid chan r t) = same_people s t"
  "same_people s (propagate_kick uid chan n r t) = same_people s t"
  "same_people s (numeric uid code rest t) = same_people s t"
  "same_people s (snotice_c E cat msg t) = same_people s t"
  "same_people s (propagate_join uid name new t) = same_people s t"
  "same_people s (send_topic uid name tp t) = same_people s t"
  "same_people s (send_names uid key t) = same_people s t"
  "same_people s (announce_join uid u name ch t) = same_people s t"
  by (rule same_people_out, simp)+

lemma force_part_people:
  assumes "user_inv s" and "force_part uid chan reason s = Some s'"
  shows "same_people s s'"
  using assms(2)
  by (auto simp: force_part_def Let_def split: option.splits if_splits intro!: drop_membership_people [OF assms(1)])

lemma part_people:
  assumes "user_inv s"
  shows "same_people s (snd (part uid target reason s))"
  by (auto simp: part_def Let_def split: option.split intro!: drop_membership_people [OF assms])

lemma flood_kick_people:
  assumes "user_inv s"
  shows "same_people s (flood_kick uid key ban s)"
  by (auto simp: flood_kick_def Let_def split: option.split intro!: drop_membership_people [OF assms])

text \<open>The checks of a join only send numerics, count, and set the redirect guards.\<close>

fun step_people :: "server \<Rightarrow> join_step \<Rightarrow> bool" where
  "step_people s (Done s1) = same_people s s1"
| "step_people s (DenyHop s1 t) = same_people s s1"
| "step_people s (LinkHop s1 t) = same_people s s1"
| "step_people s (Go ov s1) = same_people s s1"

lemma step_people_trans: "same_people s s1 \<Longrightarrow> step_people s1 r \<Longrightarrow> step_people s r"
  by (cases r) (auto intro: same_people_trans)

lemma step_people_bind:
  assumes "step_people s r" and "\<And>ov s1. step_people s1 (f ov s1)"
  shows "step_people s (step_bind r f)"
  using assms by (cases r) (auto intro: step_people_trans)

lemma restrict_people [simp]: "step_people s (restrict uid can hit code msg ov s)"
  by (simp add: restrict_def)

lemma denychans_people [simp]: "step_people s (denychans_intercept E uid name oper_user ov s)"
  by (auto simp: denychans_intercept_def Let_def split: option.split intro: same_people_trans)

lemma gate_people [simp]: "step_people s (restrictchans_intercept E uid name may ov s)"
  "step_people s (channames_intercept uid name ov s)"
  by (simp_all add: restrictchans_intercept_def channames_intercept_def split: option.split)

lemma join_gate_people: "step_people s (join_gate E uid name s)"
proof -
  have "step_people s (step_bind (denychans_intercept E uid name (is_oper s uid) False s) (\<lambda>ov s.
          step_bind (restrictchans_intercept E uid name (has_priv s uid ''channels/restricted-create'') ov s)
            (channames_intercept uid name)))"
    by (intro step_people_bind denychans_people gate_people)
  then show ?thesis by (simp add: join_gate_def Let_def split: option.split)
qed

lemma channel_checks_people [simp]: "step_people s (check_key uid can name key_arg ch ov s)"
  "step_people s (check_ban E uid can name ch ov s)" "step_people s (check_limit uid can name ch ov s)"
  by (simp_all add: check_key_def check_ban_def check_limit_def Let_def split: option.split)

lemma check_access_people: "step_people s (check_access E uid can name ch ov s)"
  unfolding check_access_def by (intro step_people_bind restrict_people) (simp split: option.split)

lemma joinflood_people: "same_people s (snd (joinflood_check key s))"
  by (simp add: joinflood_check_def Let_def split: option.split)

lemma check_joinflood_people: "step_people s (check_joinflood uid can name ov s)"
  using joinflood_people [of s "to_ascii_lowercase name"]
  by (auto simp: check_joinflood_def Let_def intro: same_people_trans split: prod.split)

lemma join_checks_people: "step_people s (join_checks E uid name key_arg s)"
proof -
  have "step_people s (case map_of (channels s) key of
           None \<Rightarrow> Go ov s
         | Some ch \<Rightarrow>
             step_bind (check_key uid can name key_arg ch ov s) (\<lambda>ov s.
             step_bind (check_ban E uid can name ch ov s) (\<lambda>ov s.
             step_bind (check_access E uid can name ch ov s) (\<lambda>ov s.
               check_limit uid can name ch ov s))))" for s key can ov
    by (cases "map_of (channels s) key") (simp_all add: step_people_bind check_access_people)
  then show ?thesis
    unfolding join_checks_def Let_def by (intro step_people_bind join_gate_people check_joinflood_people)
qed

lemma replay_people [simp]: "same_people s (replay_chanhistory uid key t) = same_people s t"
proof -
  have "same_people s (snd (next_msgid t)) = same_people s t" by (simp add: next_msgid_def Let_def)
  moreover have "same_people s (replay_out uid name bref out t) = same_people s t" for name bref out t
    by (rule same_people_out) simp
  ultimately show ?thesis
    by (simp add: replay_chanhistory_def Let_def split: option.split prod.split)
qed

lemma join_enter_people:
  assumes "distinct (map fst (users s))" and "map_of (users s) uid = Some u" and "registered u"
  shows "same_people s (join_enter uid name s)"
proof -
  let ?key = "to_ascii_lowercase name"
  let ?g = "\<lambda>u. u\<lparr>joined_chans := List.insert ?key (joined_chans u), invited := set_remove ?key (invited u)\<rparr>"
  obtain s2 where eq: "join_enter uid name s = update_user uid ?g s2" and s2: "same_people s s2" "users s2 = users s"
    by (auto simp: join_enter_def Let_def)
  have "same_people s2 (update_user uid ?g s2)"
    by (rule same_people_update_user) (use assms s2(2) roster_join in auto)
  then show ?thesis unfolding eq using s2(1) same_people_trans by blast
qed

lemma join_commit_people:
  assumes "distinct (map fst (users s))" and "map_of (users s) uid = Some u" and "registered u"
  shows "same_people s (join_commit E uid name ov s)"
proof -
  define s1 where "s1 = (if ov then
     snotice_c E ''v'' (trf (catalog_of s) ''{0} used oper override to join {1}'' [nick_of s uid, name]) s else s)"
  have s1: "users s1 = users s" "same_people s s1" by (simp_all add: s1_def)
  then have "same_people s (join_enter uid name s1)"
    using join_enter_people [of s1 uid u name] assms same_people_trans by auto
  then show ?thesis
    unfolding join_commit_def Let_def s1_def [symmetric] by (simp split: option.split)
qed

lemma join_fuel_people:
  assumes "distinct (map fst (users s))" and "\<And>u. map_of (users s) uid = Some u \<Longrightarrow> registered u"
    and "join_fuel n E uid name key_arg s = Some s'"
  shows "same_people s s'"
  using assms
proof (induction n arbitrary: name key_arg s s')
  case (Suc n)
  note ok = join_checks_people [of s E uid name key_arg]
  have via: "same_people s s2" if "same_people s s1" "join_fuel n E uid t None s1 = Some s2" for s1 s2 t
  proof -
    have rel: "list_all2 (\<lambda>(i, u) (j, v). i = j \<and> roster u v) (users s) (users s1)"
      using that(1) by (simp add: same_people_def)
    have "registered v" if v: "map_of (users s1) uid = Some v" for v
    proof -
      obtain u where "map_of (users s) uid = Some u" "roster u v"
        using people_lookup(1) [OF rel, of uid] v by (cases "map_of (users s) uid") auto
      then show ?thesis using Suc.prems(2) roster_sel(8) by simp
    qed
    moreover have "distinct (map fst (users s1))" using Suc.prems(1) people_lookup(2) [OF rel] by simp
    ultimately show ?thesis using Suc.IH that same_people_trans by blast
  qed
  show ?case
  proof (cases "join_checks E uid name key_arg s")
    case (Done s1)
    then show ?thesis using ok Suc.prems(3) by simp
  next
    case (DenyHop s1 t)
    then show ?thesis using ok Suc.prems(3) via [of s1] by auto
  next
    case (LinkHop s1 t)
    then show ?thesis using ok Suc.prems(3) via [of "s1\<lparr>in_redirect := True\<rparr>"] by auto
  next
    case (Go ov s1)
    then obtain u where u: "map_of (users s) uid = Some u" by (rule join_checks_GoD)
    have "users s1 = users s" using Go join_checks_ok [of s E uid name key_arg] by (simp add: frame_def)
    then have "same_people s1 (join_commit E uid name ov s1)"
      using join_commit_people [of s1 uid u] Suc.prems(1,2) u by simp
    then show ?thesis using Go ok Suc.prems(3) same_people_trans by auto
  qed
qed simp

lemma join_inv:
  assumes "user_inv s" and "\<And>u. map_of (users s) uid = Some u \<Longrightarrow> registered u"
  shows "user_inv (join E uid name key_arg s)"
  using assms join_fuel_people [OF user_invD(9) [OF assms(1)] assms(2) join_ok(1)]
    join_ok(4) [OF user_invD(1) [OF assms(1)]] same_people_inv by blast

lemma emulate_people: "same_people s (emulate_rename_join m old new newkey reason t) = same_people s t"
  by (rule same_people_out) simp

lemma same_people_folds:
  "(\<And>x t. same_people s (f x t) = same_people s t) \<Longrightarrow> same_people s (fold f xs t) = same_people s t"
  by (induction xs arbitrary: t) auto

lemma move_members_people:
  assumes "distinct (map fst (users s))" and "\<And>i u. i \<in> set ms \<Longrightarrow> map_of (users s) i = Some u \<Longrightarrow> registered u"
  shows "same_people s (fold (\<lambda>m. update_user m (\<lambda>u. u\<lparr>joined_chans := h (joined_chans u)\<rparr>)) ms s)"
  using assms
proof (induction ms arbitrary: s)
  case (Cons m ms)
  let ?f = "\<lambda>u. u\<lparr>joined_chans := h (joined_chans u)\<rparr>" and ?s1 = "update_user m (\<lambda>u. u\<lparr>joined_chans := h (joined_chans u)\<rparr>) s"
  have "same_people s ?s1"
    by (rule same_people_update_user) (use Cons.prems in \<open>auto simp: roster_def\<close>)
  moreover have "same_people ?s1 (fold (\<lambda>m. update_user m ?f) ms ?s1)"
  proof (rule Cons.IH)
    show "registered u" if "i \<in> set ms" "map_of (users ?s1) i = Some u" for i u
      using that Cons.prems(2) [of i] by (cases "map_of (users s) i") (auto simp: map_of_map_key split: if_splits)
  qed (use Cons.prems(1) in simp)
  ultimately show ?case by (auto intro: same_people_trans)
qed simp

lemma rename_channel_people:
  assumes "user_inv s"
  shows "same_people s (snd (rename_channel oldkey newname src reason s))"
proof -
  have reg: "registered u" if "map_of (channels s) oldkey = Some ch" "i \<in> set (map fst (members ch))"
    "map_of (users s) i = Some u" for ch i u
  proof -
    have "on_chan (channels s) i oldkey" using that(1,2) by (auto simp: on_chan_def map_of_eq_None_iff)
    then have "lists_chan (users s) i oldkey" using user_invD(10) [OF assms] by (simp add: membership_ok_def)
    then show ?thesis using that(3) registered_of_member [OF assms that(3)] by (simp add: lists_chan_def)
  qed
  have moved: "same_people s (move_channel oldkey newname ch s)" if "map_of (channels s) oldkey = Some ch" for ch
  proof -
    let ?s1 = "s\<lparr>channels := AList.update (to_ascii_lowercase newname) (ch\<lparr>chan_name := newname\<rparr>) (AList.delete oldkey (channels s))\<rparr>"
    have "same_people ?s1 (fold (\<lambda>m. update_user m (\<lambda>u. u\<lparr>joined_chans :=
        List.insert (to_ascii_lowercase newname) (set_remove oldkey (joined_chans u))\<rparr>)) (map fst (members ch)) ?s1)"
      by (rule move_members_people) (use user_invD(9) [OF assms] reg [OF that] in auto)
    then show ?thesis
      using same_people_trans [of s ?s1] by (simp add: move_channel_def rekey_channel_state_def Let_def)
  qed
  show ?thesis
    using moved
    by (auto simp: rename_channel_def Let_def emulate_people same_people_folds split: option.split)
qed

lemma puppet_join_inv:
  assumes "user_inv s" and "\<And>u. map_of (users s) uid = Some u \<Longrightarrow> registered u"
  shows "user_inv (puppet_join uid chan s)"
proof -
  let ?key = "to_ascii_lowercase chan"
  consider "map_of (channels s) ?key = None" | "map_of (users s) uid = None"
    | c m where "map_of (channels s) ?key = Some c" "map_of (members c) uid = Some m"
    | c u where "map_of (channels s) ?key = Some c" "map_of (users s) uid = Some u" "map_of (members c) uid = None"
    by (metis not_None_eq)
  then show ?thesis
  proof cases
    case 4
    let ?f = "\<lambda>c. c\<lparr>members := AList.update uid default_member (members c)\<rparr>"
    let ?g = "\<lambda>u. u\<lparr>joined_chans := List.insert ?key (joined_chans u)\<rparr>"
    let ?s1 = "update_user uid ?g (update_chan ?key ?f s)"
    have "membership_ok (users ?s1) (channels ?s1)"
      using membership_enter [OF user_invD(10) [OF assms(1)] 4(2,1), of ?f default_member ?g] by simp
    moreover have "all_alive (channels ?s1)"
      using user_invD(11) [OF assms(1)]
      by (auto simp: all_alive_def map_of_map_key intro: update_keep_alive split: if_splits)
    ultimately have "chan_inv ?s1" by (simp add: chan_inv_def)
    moreover have "same_people (update_chan ?key ?f s) ?s1"
      by (rule same_people_update_user) (use user_invD(9) [OF assms(1)] assms(2) in \<open>auto simp: roster_def\<close>)
    then have "same_people s ?s1" using same_people_trans [of s "update_chan ?key ?f s"] by simp
    ultimately have "user_inv ?s1" using same_people_inv assms(1) by blast
    moreover have "core (puppet_join uid chan s) = core ?s1" using 4 by (simp add: puppet_join_def Let_def)
    ultimately show ?thesis using user_inv_core by blast
  qed (use assms(1) in \<open>simp_all add: puppet_join_def Let_def split: option.split\<close>)
qed

lemma nickflood_people: "same_people s (snd (nickflood_blocked uid t)) = same_people s t"
proof -
  have "same_people s (snd (nickflood_step dur key acc)) = same_people s (snd acc)" for dur key acc
    by (simp add: nickflood_step_def Let_def case_prod_unfold split: option.split)
  then have "same_people s (snd (fold (nickflood_step dur) keys acc)) = same_people s (snd acc)" for dur keys acc
    by (induction keys arbitrary: acc) simp_all
  then show ?thesis by (simp add: nickflood_blocked_def)
qed

lemma channel_outputs_people [simp]:
  "same_people s (send_join u name m t) = same_people s t"
  "same_people s (propagate_chan_mode src chan ms ps t) = same_people s t"
  by (rule same_people_out, simp)+

lemma same_people_same_users:
  assumes "user_inv s" and "chan_inv s'" and "same_people s s'"
  shows "user_inv s'"
  using assms same_people_inv by blast

lemma channel_upkeep_inv:
  assumes "user_inv s"
  shows "user_inv (reveal_member uid key s)" "user_inv (snd (messageflood_hit uid key s))"
    "user_inv (snd (nickflood_blocked uid s))" "user_inv (purge_tbans s)" "user_inv (purge_flood_state s)"
    "user_inv (flood_kick uid key ban s)" "user_inv (snd (part uid target reason s))"
    "user_inv (snd (rename_channel oldkey newname src reason s))"
proof -
  note inv = user_invD(1) [OF assms] and lift = same_people_same_users [OF assms]
  show "user_inv (flood_kick uid key ban s)" by (rule lift [OF flood_kick_inv [OF inv] flood_kick_people [OF assms]])
  show "user_inv (snd (part uid target reason s))" by (rule lift [OF part_inv [OF inv] part_people [OF assms]])
  show "user_inv (snd (rename_channel oldkey newname src reason s))"
    by (rule lift [OF rename_channel_inv [OF inv] rename_channel_people [OF assms]])
  show "user_inv (reveal_member uid key s)"
    by (rule lift [OF reveal_member_inv [OF inv]])
      (simp add: reveal_member_def Let_def same_people_folds split: option.split)
  show "user_inv (snd (messageflood_hit uid key s))"
    by (rule lift [OF messageflood_inv [OF inv]]) (simp add: messageflood_hit_def Let_def split: option.split)
  show "user_inv (purge_flood_state s)"
    by (rule lift [OF purge_flood_inv [OF inv]]) (simp add: purge_flood_state_def)
  show "user_inv (purge_tbans s)"
    by (rule lift [OF purge_tbans_inv [OF inv]])
      (auto simp: purge_tbans_def purge_tban_def Let_def case_prod_unfold intro!: same_people_folds [THEN iffD2])
  show "user_inv (snd (nickflood_blocked uid s))"
    by (rule lift [OF nickflood_inv [OF inv]]) (simp add: nickflood_people)
qed

section \<open>The transition system\<close>

text \<open>One step of the core.  The guards are those of the callers: only registered users reach the
  channel commands, the NICK command refuses a nick in use by someone else, a connection arrives
  under a number no other connection has, and a bridge mints a puppet only under a free nick.\<close>

inductive step :: "env \<Rightarrow> server \<Rightarrow> server \<Rightarrow> bool" for E where
  connect: "map_of (users s) uid = None \<Longrightarrow> file_conn uid addr sec fp brand s = Some s' \<Longrightarrow> step E s s'"
| register: "step E s (mark_registered uid s)"
| puppet: "map_of (users s) uid = None \<Longrightarrow> n \<noteq> [] \<Longrightarrow> find_nick s n = None
     \<Longrightarrow> mint_puppet uid n id' h rn s = Some s' \<Longrightarrow> step E s s'"
| puppet_in: "map_of (users s) uid = Some u \<Longrightarrow> registered u \<Longrightarrow> step E s (puppet_join uid chan s)"
| nick_change: "n \<noteq> [] \<Longrightarrow> find_nick s n \<in> {None, Some uid} \<Longrightarrow> step E s (set_nick E uid n s)"
| quit: "step E s (remove_user uid reason s)"
| class_change: "step E s (set_class uid name s)"
| watch_add: "step E s (watch_index_add uid low s)"
| watch_remove: "step E s (watch_index_remove uid low s)"
| watch_clear: "step E s (watch_index_clear uid s)"
| monitor_add: "step E s (monitor_index_add uid low s)"
| monitor_remove: "step E s (monitor_index_remove uid low s)"
| monitor_clear: "step E s (monitor_index_clear uid s)"
| accepting: "step E s (accept_add uid low s)"
| unaccepting: "step E s (accept_remove uid low s)"
| joining: "map_of (users s) uid = Some u \<Longrightarrow> registered u \<Longrightarrow> step E s (join E uid name key_arg s)"
| parting: "step E s (snd (part uid target reason s))"
| forced_part: "force_part uid chan reason s = Some s' \<Longrightarrow> step E s s'"
| flooding: "step E s (flood_kick uid key ban s)"
| renaming: "step E s (snd (rename_channel oldkey newname src reason s))"
| revealing: "step E s (reveal_member uid key s)"
| message_counted: "step E s (snd (messageflood_hit uid key s))"
| nick_counted: "step E s (snd (nickflood_blocked uid s))"
| purged: "step E s (purge_flood_state (purge_tbans s))"
| guarded: "step E s (guard_tick E s)"
| ban_set: "step E s (add_xline_at E kind msk duration who reason set_at s)"
| ban_lifted: "step E s (snd (remove_xline E kind msk remover s))"
| bans_expired: "step E s (purge_xlines E s)"
| banned_out: "step E s (refuse_banned uid reason s)"
| ban_command: "step E s (snd (do_xline E uid ps kind s))"
| rline_command: "step E s (snd (rline_handle E uid ps s))"
| ban_received: "step E s (link_addline_recv E via msg s)"
| lift_received: "step E s (link_delline_recv E via msg s)"
| hold_received: "step E s (link_svshold E via msg s)"
| written: "core s' = core s \<Longrightarrow> step E s s'"

inductive reachable :: "env \<Rightarrow> server \<Rightarrow> bool" for E where
  boot: "reachable E (new_server name sid' net sasl motd' raw cat pfx path now)"
| run: "reachable E s \<Longrightarrow> step E s s' \<Longrightarrow> reachable E s'"

inductive_cases step_elim: "step E s s'"

text \<open>An invariant of the core: it holds at the start and every step keeps it.\<close>

locale invariant =
  fixes E :: env and I :: "server \<Rightarrow> bool"
  assumes at_boot: "I (new_server name sid' net sasl motd' raw cat pfx path now)"
    and kept: "step E s s' \<Longrightarrow> I s \<Longrightarrow> I s'"
begin

lemma reachable_invariant: "reachable E s \<Longrightarrow> I s"
  by (induction rule: reachable.induct) (auto intro: at_boot kept)

end

lemma guard_tick_inv: "user_inv s \<Longrightarrow> user_inv (guard_tick E s)"
proof -
  assume inv: "user_inv s"
  have "length (filter (\<lambda>(_, u). \<not> registered u) us) = tally (\<lambda>u. of_bool (\<not> registered u)) us" for us
    by (induction us) auto
  then have "live_unregistered s = unreg_count s" using user_invD(8) [OF inv] by (simp add: live_unregistered_def guard_ok_def)
  then have "user_inv (s\<lparr>unreg_count := live_unregistered s, unreg_flood := b\<rparr>)" for b
    using inv user_inv_cong [of "s\<lparr>unreg_count := live_unregistered s, unreg_flood := b\<rparr>" s] by simp
  moreover have "user_inv (snotice_c E cat msg t) = user_inv t" for cat msg t by (rule user_inv_core) simp
  ultimately show ?thesis by (simp add: guard_tick_def Let_def)
qed

lemma boot_inv: "user_inv (new_server name sid' net sasl motd' raw cat pfx path now)"
  by (simp add: new_server_def user_inv_def chan_inv_def membership_ok_def all_alive_def on_chan_def lists_chan_def
      counts_ok_def counts_wf_def count_get_def accepts_ok_def index_ok_def index_wf_def index_has_def nicks_ok_def
      uuids_ok_def guard_ok_def)

lemma step_inv: "step E s s' \<Longrightarrow> user_inv s \<Longrightarrow> user_inv s'"
proof (induction rule: step.induct)
  case (forced_part uid chan reason s s')
  then show ?case
    using force_part_inv [OF user_invD(1), of s uid chan reason] force_part_people same_people_inv by fastforce
next
  case (written s' s)
  then show ?case using user_inv_core by blast
qed (auto intro: file_conn_inv mark_registered_inv mint_puppet_inv puppet_join_inv set_nick_inv remove_user_inv
    set_class_inv watch_index_inv monitor_index_inv accept_add_inv accept_remove_inv join_inv channel_upkeep_inv
    guard_tick_inv add_xline_inv remove_xline_inv purge_xlines_inv refuse_banned_inv ban_commands_inv)

interpretation tables: invariant E user_inv for E
  by unfold_locales (rule boot_inv, rule step_inv)

lemmas reachable_tables = tables.reachable_invariant

end
