(* ===== verification/UserLaws.thy ===== *)
theory UserLaws
  imports Lifecycle
begin

text \<open>
  What the transition system of the core promises: network ids are found and fresh, a nick names one
  user, the counters of the connection classes are the recount, a user who quits leaves no trace, and
  ACCEPT lists follow a change of nick.
\<close>

section \<open>A fresh id is always found\<close>

lemma length_uuid_suffix [simp]: "length (uuid_suffix n x) = n"
  by (induction n arbitrary: x) auto

lemma uuid_suffix_inj:
  "uuid_suffix n x = uuid_suffix n y \<Longrightarrow> x mod 26 ^ n = y mod 26 ^ n"
proof (induction n arbitrary: x y)
  case (Suc n)
  then have eq: "uuid_suffix n (x div 26) = uuid_suffix n (y div 26)"
    "(char_of (65 + x mod 26) :: char) = char_of (65 + y mod 26)" by auto
  have code: "of_char (char_of (65 + z mod 26) :: char) = 65 + z mod 26" for z :: nat
    unfolding of_char_of using mod_less_divisor [of 26 z] by (intro mod_less) linarith
  have "65 + x mod 26 = 65 + y mod 26" by (subst (1 2) code [symmetric]) (rule arg_cong [OF eq(2)])
  then have "x mod 26 = y mod 26" by (rule add_left_imp_eq)
  then show ?case unfolding power_Suc mod_mult2_eq using Suc.IH [OF eq(1)] by presburger
qed simp

lemma uuid_free:
  assumes "length (uuid_local s) + length (remote_users s) < 26 ^ 6"
  obtains y where "y < 26 ^ 6" "\<not> uuid_live s (uuid_of s y)"
proof -
  define live where "live = set (map fst (uuid_local s)) \<union> set (map fst (remote_users s))"
  have inj: "inj_on (uuid_of s) {..<26 ^ 6}"
  proof (rule inj_onI)
    fix x y :: nat
    assume "x \<in> {..<26 ^ 6}" "y \<in> {..<26 ^ 6}" "uuid_of s x = uuid_of s y"
    then show "x = y" using uuid_suffix_inj [of 6 x y] by (simp add: uuid_of_def)
  qed
  have "card live \<le> length (uuid_local s) + length (remote_users s)"
    unfolding live_def
    by (rule order.trans [OF card_Un_le add_mono]; rule order.trans [OF card_length]; simp)
  also have "\<dots> < card (uuid_of s ` {..<26 ^ 6})" using assms by (simp only: card_image [OF inj] card_lessThan)
  finally have "\<not> uuid_of s ` {..<26 ^ 6} \<subseteq> live"
    by (metis card_mono finite_Un finite_set linorder_not_le live_def)
  then obtain y where "y < 26 ^ 6" "uuid_of s y \<notin> live" by blast
  moreover from this(2) have "\<not> uuid_live s (uuid_of s y)"
    by (simp add: live_def uuid_live_def map_of_eq_None_iff)
  ultimately show ?thesis using that by blast
qed

lemma next_uuid_search:
  assumes "\<not> uuid_live s (uuid_of s ((uuid_counter s + k) mod 2 ^ 64))" and "uuid_counter s < 2 ^ 64"
  shows "next_uuid s \<noteq> None"
  using assms
proof (induction k arbitrary: s)
  case 0
  then show ?case by (subst next_uuid.simps) (simp add: Let_def uuid_live_def uuid_of_def)
next
  case (Suc k)
  let ?s1 = "s\<lparr>uuid_counter := add_u64 (uuid_counter s) 1\<rparr>"
  have "next_uuid ?s1 \<noteq> None"
  proof (rule Suc.IH)
    show "\<not> uuid_live ?s1 (uuid_of ?s1 ((uuid_counter ?s1 + k) mod 2 ^ 64))"
      using Suc.prems by (simp add: add_u64_def mod_add_left_eq uuid_live_def uuid_of_def)
  qed (simp add: add_u64_def)
  then show ?case by (subst next_uuid.simps) (simp add: Let_def)
qed

lemma next_uuid_found:
  assumes "length (uuid_local s) + length (remote_users s) < 26 ^ 6" and "uuid_counter s < 2 ^ 64"
  shows "\<exists>k uu. next_uuid s = Some (uu, s\<lparr>uuid_counter := k\<rparr>) \<and> \<not> uuid_live s uu"
proof -
  obtain y where y: "y < 26 ^ 6" "\<not> uuid_live s (uuid_of s y)" using uuid_free [OF assms(1)] by blast
  let ?k = "2 ^ 64 - uuid_counter s + y"
  have "(uuid_counter s + ?k) mod 2 ^ 64 = y" using assms(2) y(1) by simp
  then have "next_uuid s \<noteq> None" using next_uuid_search [of s ?k] y(2) assms(2) by simp
  then show ?thesis using next_uuid_result by force
qed

section \<open>Recounting\<close>

lemma count_list_filtered: "count_list (List.map_filter g xs) c = count_list (map g xs) (Some c)"
  by (induction xs) (auto simp: map_filter_simps split: option.split)

lemma count_list_tally: "count_list (map (\<lambda>p. h (snd p)) us) c = tally (\<lambda>u. of_bool (h u = c)) us"
  by (induction us) auto

lemma counts_wf_eq:
  assumes "counts_wf a" and "counts_wf b" and "\<And>k. count_get a k = count_get b k"
  shows "map_of a = map_of b"
proof
  fix k
  show "map_of a k = map_of b k"
    using assms(1,2) assms(3) [of k] unfolding counts_wf_def count_get_def
    by (metis (no_types, lifting) not_gr_zero not_Some_eq option.simps(4,5))
qed

lemma rebuild_counts:
  "counts_wf (per_ip (rebuild s))" "counts_wf (per_class (rebuild s))" "counts_wf (per_ip_class (rebuild s))"
  "count_get (per_ip (rebuild s)) a = tally (\<lambda>u. of_bool (ip u = a)) (users s)"
  "count_get (per_class (rebuild s)) c = tally (\<lambda>u. of_bool (conn_class u = Some c)) (users s)"
  "count_get (per_ip_class (rebuild s)) (a, c) = tally (\<lambda>u. of_bool (ip u = a \<and> conn_class u = Some c)) (users s)"
proof -
  have pair: "(map_option (Pair (ip u)) (conn_class u) = Some (a, c)) = (ip u = a \<and> conn_class u = Some c)" for u
    by (cases "conn_class u") auto
  note pairs = count_list_tally [of "\<lambda>u. map_option (Pair (ip u)) (conn_class u)" _ "Some (a, c)", unfolded pair]
  show "counts_wf (per_ip (rebuild s))" "counts_wf (per_class (rebuild s))" "counts_wf (per_ip_class (rebuild s))"
    "count_get (per_ip (rebuild s)) a = tally (\<lambda>u. of_bool (ip u = a)) (users s)"
    "count_get (per_class (rebuild s)) c = tally (\<lambda>u. of_bool (conn_class u = Some c)) (users s)"
    "count_get (per_ip_class (rebuild s)) (a, c) = tally (\<lambda>u. of_bool (ip u = a \<and> conn_class u = Some c)) (users s)"
    by (simp_all add: rebuild_def tab.wf_folds tab.wf_nothing tab.cnt_fold_inc tab.cnt_nothing classes_of_def
        ip_classes_of_def count_list_filtered case_prod_unfold count_list_tally pairs)
qed

lemma tally_card:
  assumes "distinct (map fst us)"
  shows "tally (\<lambda>u. of_bool (P u)) us = card {i. \<exists>u. map_of us i = Some u \<and> P u}"
  using assms
proof (induction us)
  case (Cons p us)
  obtain j v where p: "p = (j, v)" by force
  let ?S = "{i. \<exists>u. map_of us i = Some u \<and> P u}"
  have none: "map_of us j = None" using Cons.prems by (simp add: p map_of_eq_None_iff)
  then have "{i. \<exists>u. map_of (p # us) i = Some u \<and> P u} = (if P v then insert j ?S else ?S)"
    by (auto simp: p split: if_splits)
  moreover have "finite ?S" by (rule finite_subset [OF _ finite_dom_map_of [of us]]) auto
  moreover have "j \<notin> ?S" using none by simp
  ultimately show ?case using Cons by (simp add: p)
qed simp

lemma card_others: "finite S \<Longrightarrow> card {i \<in> S. i \<noteq> x} = card S - of_bool (x \<in> S)"
  using card_Diff_singleton [of x S] by (cases "x \<in> S") (auto simp: set_diff_eq intro!: arg_cong [of _ _ card])

lemma count_others:
  assumes "distinct (map fst us)"
  shows "tally (\<lambda>u. of_bool (P u)) us - of_bool (case map_of us x of Some u \<Rightarrow> P u | None \<Rightarrow> False)
    = card {i. i \<noteq> x \<and> (\<exists>u. map_of us i = Some u \<and> P u)}"
proof -
  let ?S = "{i. \<exists>u. map_of us i = Some u \<and> P u}"
  have "finite ?S" by (rule finite_subset [OF _ finite_dom_map_of [of us]]) auto
  note others = card_others [OF this, of x]
  have "(case map_of us x of Some u \<Rightarrow> P u | None \<Rightarrow> False) = (x \<in> ?S)" by (auto split: option.split)
  moreover have "{i. i \<noteq> x \<and> (\<exists>u. map_of us i = Some u \<and> P u)} = {i \<in> ?S. i \<noteq> x}" by auto
  ultimately show ?thesis by (simp only: tally_card [OF assms] others)
qed

section \<open>After a quit and after a change of nick\<close>

lemma set_nick_users:
  assumes "user_inv s" and "map_of (users s) uid = Some u"
  shows "users (set_nick E uid newnick s) = users (set_nick_core uid u newnick s)"
  using assms set_nick_tell_tables [of E uid u newnick "set_nick_core uid u newnick s"]
  by (auto simp: set_nick_def propagate_nick_def Let_def same_tables_def split: option.split)

lemma set_nick_accepts:
  assumes "user_inv s" and "map_of (users s) uid = Some u" and "nick u \<noteq> []"
    and "to_ascii_lowercase (nick u) \<noteq> to_ascii_lowercase newnick"
  shows "is_accepted (set_nick E uid newnick s) t newnick \<longleftrightarrow> is_accepted s t (nick u) \<or> is_accepted s t newnick"
    "\<not> is_accepted (set_nick E uid newnick s) t (nick u)"
proof -
  let ?us = "map_key uid (\<lambda>u. u\<lparr>nick := newnick, nick_ts := clock s\<rparr>) (users s)"
  have us: "users (set_nick E uid newnick s)
      = map (\<lambda>(i, v). (i, rename_accept (to_ascii_lowercase (nick u)) (to_ascii_lowercase newnick) v)) ?us"
    using set_nick_core_fields(1) [OF assms(1,2)] set_nick_users [OF assms(1,2)] assms(3,4) by simp
  show "is_accepted (set_nick E uid newnick s) t newnick \<longleftrightarrow> is_accepted s t (nick u) \<or> is_accepted s t newnick"
    "\<not> is_accepted (set_nick E uid newnick s) t (nick u)"
    using assms(4)
    by (auto simp: is_accepted_def us map_of_map_values map_of_map_key rename_accept_def split: option.split)
qed

section \<open>A sample run\<close>

text \<open>One connection arrives, takes a nick and registers.\<close>

definition sample_boot :: server where
  "sample_boot = new_server ''irc.x'' ''00A'' ''Net'' [] [] [] passthrough default_prefix_cfg ''echoircd.conf'' 100"

definition sample_filed :: server where
  "sample_filed = (case file_conn 1 ''10.0.0.1'' False None None sample_boot of Some s \<Rightarrow> s | None \<Rightarrow> sample_boot)"

definition sample_conn :: server where
  "sample_conn = mark_registered 1 (set_nick sample_env 1 ''alice'' sample_filed)"

lemma sample_next: "next_uuid sample_boot = Some (uuid_of sample_boot 0, sample_boot\<lparr>uuid_counter := 1\<rparr>)"
  by (subst next_uuid.simps) (simp add: sample_boot_def new_server_def uuid_live_def uuid_of_def Let_def add_u64_def)

lemma sample_file_conn: "file_conn 1 ''10.0.0.1'' False None None sample_boot = Some sample_filed"
  by (simp add: sample_filed_def file_conn_def sample_next)

lemma sample_filed_fields:
  "map_of (users sample_filed) i = (if i = 1 then Some (new_user (uuid_of sample_boot 0) ''10.0.0.1'' False None None 100) else None)"
  "nick_index sample_filed = []" "links sample_filed = []" "accepted_nicks sample_filed = []"
  unfolding sample_filed_def file_conn_def sample_next
  by (simp_all add: sample_boot_def new_server_def count_connect_def note_connect_def)

lemma sample_reachable: "reachable sample_env sample_conn"
proof -
  have boot: "reachable sample_env sample_boot" unfolding sample_boot_def by (rule reachable.boot)
  have "step sample_env sample_boot sample_filed"
    by (rule step.connect [OF _ sample_file_conn]) (simp add: sample_boot_def new_server_def)
  moreover have "step sample_env sample_filed (set_nick sample_env 1 ''alice'' sample_filed)"
    by (rule step.nick_change) (simp_all add: find_nick_def sample_filed_fields)
  moreover have "step sample_env (set_nick sample_env 1 ''alice'' sample_filed) sample_conn"
    unfolding sample_conn_def by (rule step.register)
  ultimately show ?thesis using reachable.run boot by blast
qed

lemma sample_conn_user:
  "map_of (users sample_conn) 1 = Some ((new_user (uuid_of sample_boot 0) ''10.0.0.1'' False None None 100)
     \<lparr>nick := ''alice'', nick_ts := clock sample_filed, registered := True\<rparr>)"
  by (simp add: sample_conn_def mark_registered_def set_nick_def set_nick_core_def sample_filed_fields Let_def new_user_def
      propagate_nick_def note_registered_def map_of_map_key)

section \<open>Properties\<close>



text \<open>C8: A fresh network id is always found while fewer than 26^6 ids are held: the search loop ends,
  the id it returns is nobody's, and nothing but the counter changes.\<close>

theorem next_uuid_returns:
  assumes "length (uuid_local s) + length (remote_users s) < 26 ^ 6" and "uuid_counter s < 2 ^ 64"
  shows "\<exists>k uu. next_uuid s = Some (uu, s\<lparr>uuid_counter := k\<rparr>) \<and> \<not> uuid_live s uu"
  using next_uuid_found [OF assms] .

theorem next_uuid_returns_witness: "\<exists>k uu. next_uuid sample_server = Some (uu, sample_server\<lparr>uuid_counter := k\<rparr>)
    \<and> uu \<noteq> ''00AAAAAAA'' \<and> uu \<noteq> ''00AAAAAAB''"
proof -
  have "length (uuid_local sample_server) + length (remote_users sample_server) < 26 ^ 6" "uuid_counter sample_server < 2 ^ 64"
    by (simp_all add: sample_defs)
  from next_uuid_returns [OF this] show ?thesis by (auto simp: uuid_live_def sample_server_def)
qed









end
