(* ===== verification/BanLaws.thy ===== *)
theory BanLaws
  imports UserLaws
begin

text \<open>
  The properties of durations and server bans.
\<close>

section \<open>Samples\<close>

definition sample_ban :: xline where
  "sample_ban = \<lparr>x_kind = Kline, x_mask = ''*@10.0.0.1'', x_reason = ''open proxy'', x_setter = ''oper'', x_expires = 150,
     x_set_at = 100\<rparr>"

lemma sample_ban_wf: "wf_xline sample_ban"
  by (simp add: sample_ban_def wf_xline_def word_ok_def)

lemma sample_conn_lines: "xlines sample_conn = []" "remote_users sample_conn = []"
proof -
  have "xlines sample_filed = []" "remote_users sample_filed = []"
    unfolding sample_filed_def file_conn_def sample_next
    by (simp_all add: sample_boot_def new_server_def count_connect_def note_connect_def)
  then show "xlines sample_conn = []" "remote_users sample_conn = []"
    by (simp_all add: sample_conn_def mark_registered_def set_nick_def set_nick_core_def sample_filed_fields Let_def new_user_def
        propagate_nick_def note_registered_def map_of_map_key update_user_def)
qed

section \<open>Properties\<close>



text \<open>C14: A restart loses no ban.  The text the server writes, read back by a fresh server, gives every line
  that has not expired by then, with its mask, reason, setter, expiry and time of setting, in the same order.\<close>

theorem xlines_survive_restart:
  assumes "list_all wf_xline (xlines s)" and "distinct (map xline_key (xlines s))"
    and "\<not> stores_in_db s" and "\<not> stores_in_db t" and "xlines t = []"
    and "map_of (disk_pending (save_xlines s)) (xline_db_path s) = stored"
  shows "xlines (load_xlines rows stored answer t) = filter (\<lambda>x. x_live x (clock t)) (xlines s)"
proof -
  have "stored = Some (xlines_text (xlines s))"
    using assms(3,6) by (auto simp: save_xlines_def persist_save_def disk_write_def update_conv')
  then have "xlines (load_xlines_text stored t) = filter (\<lambda>x. x_live x (clock t)) (xlines s)"
    using load_text_xlines [OF assms(1), of t] assms(5) by simp
  moreover have "keep_first [] (filter (\<lambda>x. x_live x (clock t)) (xlines s)) = filter (\<lambda>x. x_live x (clock t)) (xlines s)"
    using assms(2) by (intro keep_first_fresh) (auto simp: distinct_map_filter)
  ultimately show ?thesis
    using assms(4) by (simp add: load_xlines_def Let_def store_rows_load_def persist_load_def store_load_or_seed_def)
qed

theorem xlines_survive_restart_witness:
  "xlines (load_xlines None (map_of (disk_pending (save_xlines (sample_boot\<lparr>xlines := [sample_ban]\<rparr>))) ''echoircd.conf.xlines'')
     None (sample_boot\<lparr>clock := 140\<rparr>)) = [sample_ban]"
proof -
  let ?s = "sample_boot\<lparr>xlines := [sample_ban]\<rparr>" and ?t = "sample_boot\<lparr>clock := 140\<rparr>"
  have "\<not> stores_in_db ?s" "\<not> stores_in_db ?t" "xline_db_path ?s = ''echoircd.conf.xlines''" "xlines ?t = []"
    by (simp_all add: sample_boot_def new_server_def stores_in_db_def xline_db_path_def conf_def)
  moreover have "filter (\<lambda>x. x_live x (clock ?t)) [sample_ban] = [sample_ban]" by (simp add: x_live_def sample_ban_def)
  ultimately show ?thesis using xlines_survive_restart [of ?s ?t _ None None] by (simp add: sample_ban_wf)
qed



lemma addline_server_line:
  "addline_text s kind msk who duration reason
     = server_line (sid s) ''ADDLINE'' [kind, msk, who, show_nat (clock s), show_nat duration] reason"
  by (simp add: addline_text_def server_line_def)

lemma show_nat_middle [simp]: "middle_ok (show_nat n)"
  by (metis hd_in_set middle_ok_def show_nat_neq_Nil show_nat_word(1,3))

lemma x_tag_middle [simp]: "middle_ok (x_tag k)"
  by (cases k) (simp_all add: middle_ok_def)

lemma to_upper_addline [simp]: "to_ascii_uppercase ''ADDLINE'' = ''ADDLINE''"
  by code_simp

text \<open>A burst line is the line of one ban, and what a peer makes of it.\<close>

lemma addline_received:
  assumes "user_inv t" and "source_behind t (sid s) via" and "sp \<notin> set (sid s)" and "middle_ok (x_mask x)"
    and "middle_ok (x_setter x)" and "clock s < 2 ^ 64" and "x_expires x < 2 ^ 64"
    and m: "parse (addline_text s (x_tag (x_kind x)) (x_mask x) (x_setter x) (burst_duration s x) (x_reason x)) = Some m"
  shows "xlines (link_addline_recv E via m t)
    = with_xline (new_xline (x_kind x) (x_mask x) (burst_duration s x) (x_setter x) (x_reason x) (clock s)) (xlines t)"
proof -
  have "burst_duration s x < 2 ^ 64" using assms(7) by (simp add: burst_duration_def less_imp_diff_less)
  moreover have "m = \<lparr>source = Some (sid s), cmd_name = ''ADDLINE'', params = [x_tag (x_kind x), x_mask x, x_setter x,
      show_nat (clock s), show_nat (burst_duration s x)] @ [x_reason x],
    ctags = [], label_tag = None, batch_tag = None, concat_tag = False\<rparr>"
    using m parse_server_line [OF assms(3), of "''ADDLINE''" "[x_tag (x_kind x), x_mask x, x_setter x,
      show_nat (clock s), show_nat (burst_duration s x)]" "x_reason x"] assms(4,5)
    by (simp add: addline_server_line)
  ultimately show ?thesis
    using assms(2,6) add_xline_at_effect(2) [OF assms(1) refl refl]
    by (simp add: link_addline_recv_def)
qed


definition sample_peer :: server where
  "sample_peer = sample_conn\<lparr>servers := [(''00B'', \<lparr>rs_sid = ''00B'', rs_name = ''hub.x'', rs_desc = [], rs_via = 7,
     rs_is_service = False, rs_silent = False\<rparr>)]\<rparr>"

lemma sample_peer_inv: "user_inv sample_peer"
  using reachable_tables [OF sample_reachable] user_inv_cong [of sample_peer sample_conn] by (simp add: sample_peer_def)


lemma glob_literal:
  "glob_spec byte_eq q st p t \<Longrightarrow> q \<notin> set p \<Longrightarrow> st \<notin> set p \<Longrightarrow> list_all2 byte_eq p t"
  by (induction p arbitrary: t) (auto split: list.splits)

lemma byte_eq_at: "byte_eq c (CHR ''@'') \<Longrightarrow> c = CHR ''@''"
  using ascii_low_eq_nonletter [of "CHR ''@''" c] by (simp add: byte_eq_def is_ascii_alphabetic_def is_ascii_upper_def
      is_ascii_lower_def ascii_low_fixed)

text \<open>C15: An E-line that names an address exempts nobody.  The lines are compared with \<open>user@host\<close> only, so a
  mask with no wildcard and no at sign, such as an IP address, never matches, whatever the address of
  the user: a K-, G- or Z-line on the user still applies.\<close>

theorem eline_address_inert:
  assumes "list_all (\<lambda>x. x_kind x = Eline \<longrightarrow> is_ascii (x_mask x) \<and> set (x_mask x) \<inter> set ''*?@'' = {}) (xlines s)"
    and "is_ascii (ident' @ ''@'' @ host')" and "CHR ''*'' \<notin> set (ident' @ ''@'' @ host')"
  shows "\<not> is_exempt E s ident' host' ip'"
proof
  let ?uh = "ident' @ ''@'' @ host'"
  assume "is_exempt E s ident' host' ip'"
  then obtain x where x: "x \<in> set (xlines s)" "x_hits E Eline ?uh ip' (clock s) x"
    by (auto simp: is_exempt_def xmatch_def list_ex_iff)
  then have m: "is_ascii (x_mask x)" "CHR ''*'' \<notin> set (x_mask x)" "CHR ''?'' \<notin> set (x_mask x)" "CHR ''@'' \<notin> set (x_mask x)"
    using assms(1) by (auto simp: list_all_iff x_hits_def)
  have "glob_bytes (x_mask x) ?uh" using x(2) m(1) assms(2) by (simp add: x_hits_def glob_match_def)
  then have "list_all2 byte_eq (x_mask x) ?uh"
    using byte_glob.glob_correct [OF assms(3)] m(2,3) glob_literal unfolding glob_bytes_def by blast
  moreover have "length ident' < length ?uh" "?uh ! length ident' = CHR ''@''" by simp_all
  ultimately have "byte_eq (x_mask x ! length ident') (CHR ''@'')" "length ident' < length (x_mask x)"
    by (metis list_all2_nthD2, metis list_all2_lengthD)
  then show False using m(4) byte_eq_at nth_mem by metis
qed

theorem eline_address_inert_witness:
  "\<not> is_exempt sample_env (sample_conn\<lparr>xlines := [sample_ban\<lparr>x_kind := Eline, x_mask := ''10.0.0.1''\<rparr>]\<rparr>) ''~a'' ''10.0.0.1'' ''10.0.0.1''"
  by (rule eline_address_inert) (simp_all add: is_ascii_def)

end
