(* ===== verification/RegexCompile.thy ===== *)
theory RegexCompile
  imports Regex
begin

text \<open>
  The compiler of \<open>src/regex.rs\<close> is correct: the program it emits moves from its first to its last
  address exactly between the positions that the pattern relates.
\<close>

section \<open>What a pattern means\<close>

text \<open>A pattern relates the positions of a text at which a match may start with those at which it may
  end.\<close>

fun sem :: "uchar list \<Rightarrow> ast \<Rightarrow> (nat \<times> nat) set" where
  "sem w AEmpty = Id"
| "sem w (AChar c) = {(i, Suc i) | i. i < length w \<and> w ! i = c}"
| "sem w AAny = {(i, Suc i) | i. i < length w \<and> w ! i \<noteq> newline}"
| "sem w (AClass items neg) = {(i, Suc i) | i. i < length w \<and> class_hit items neg (w ! i)}"
| "sem w AStart = {(0, 0)}"
| "sem w AEnd = {(length w, length w)}"
| "sem w (AConcat v) = foldr (O) (map (sem w) v) Id"
| "sem w (AAlt v) = \<Union> (set (map (sem w) v))"
| "sem w (AStar a) = (sem w a)\<^sup>*"
| "sem w (APlus a) = (sem w a)\<^sup>+"
| "sem w (AQuest a) = Id \<union> sem w a"
| "sem w (ARepeat a lo hi) =
     (case hi of None \<Rightarrow> \<Union>k\<in>{lo..}. sem w a ^^ k | Some mx \<Rightarrow> \<Union>k\<in>{lo..mx}. sem w a ^^ k)"

text \<open>The patterns the parser builds: an alternation has a branch, a bounded repetition has its bounds
  in order.\<close>

fun wf_ast :: "ast \<Rightarrow> bool" where
  "wf_ast (AConcat v) = list_all wf_ast v"
| "wf_ast (AAlt v) = (v \<noteq> [] \<and> list_all wf_ast v)"
| "wf_ast (AStar a) = wf_ast a"
| "wf_ast (APlus a) = wf_ast a"
| "wf_ast (AQuest a) = wf_ast a"
| "wf_ast (ARepeat a lo hi) = (wf_ast a \<and> (case hi of None \<Rightarrow> True | Some mx \<Rightarrow> lo \<le> mx))"
| "wf_ast _ = True"

section \<open>The code the compiler emits\<close>

text \<open>A fragment depends only on the address it is placed at.\<close>

type_synonym fragment = "nat \<Rightarrow> inst list"

fun seq_code :: "fragment list \<Rightarrow> fragment" where
  "seq_code [] l = []"
| "seq_code (f # fs) l = f l @ seq_code fs (l + length (f l))"

fun alt_code :: "fragment list \<Rightarrow> fragment" where
  "alt_code [] l = []"
| "alt_code [f] l = f l"
| "alt_code (f # g # fs) l =
     (let b = f (l + 1); l2 = l + length b + 2; rest = alt_code (g # fs) l2
      in ISplit (l + 1) l2 # b @ IJmp (l2 + length rest) # rest)"

definition star_code :: "fragment \<Rightarrow> fragment" where
  "star_code f l = (let b = f (l + 1) in ISplit (l + 1) (l + length b + 2) # b @ [IJmp l])"

definition plus_code :: "fragment \<Rightarrow> fragment" where
  "plus_code f l = (let b = f l in b @ [ISplit l (l + length b + 1)])"

definition quest_code :: "fragment \<Rightarrow> fragment" where
  "quest_code f l = (let b = f (l + 1) in ISplit (l + 1) (l + length b + 1) # b)"

fun code :: "ast \<Rightarrow> fragment" where
  "code AEmpty = (\<lambda>l. [])"
| "code (AChar c) = (\<lambda>l. [IChar c])"
| "code AAny = (\<lambda>l. [IAny])"
| "code (AClass items neg) = (\<lambda>l. [IClass items neg])"
| "code AStart = (\<lambda>l. [IStart])"
| "code AEnd = (\<lambda>l. [IEnd])"
| "code (AConcat v) = seq_code (map code v)"
| "code (AAlt v) = alt_code (map code v)"
| "code (AStar a) = star_code (code a)"
| "code (APlus a) = plus_code (code a)"
| "code (AQuest a) = quest_code (code a)"
| "code (ARepeat a lo hi) =
     seq_code (replicate lo (code a)
       @ (case hi of None \<Rightarrow> [star_code (code a)] | Some mx \<Rightarrow> replicate (mx - lo) (quest_code (code a))))"

text \<open>An emitter that appends a fragment, or fails because the fragment breaks the cap.\<close>

definition too_large :: "string" where "too_large = ''pattern too large''"

definition appends :: "emitter \<Rightarrow> fragment \<Rightarrow> bool" where
  "appends f g \<longleftrightarrow> (\<forall>p. f p = Inr (p @ g (length p))
     \<or> f p = Inl too_large \<and> length p + length (g (length p)) > MAX_PROG)"

lemma appendsE:
  assumes "appends f g"
  obtains "f p = Inr (p @ g (length p))" | "f p = Inl too_large" "length p + length (g (length p)) > MAX_PROG"
  using assms by (auto simp: appends_def)

lemma checked_exact:
  assumes "appends f g"
  shows "checked f p = (if length p + length (g (length p)) > MAX_PROG then Inl too_large else Inr (p @ g (length p)))"
  using assms by (rule appendsE [where p = p]) (auto simp: checked_def too_large_def)

lemma checked_appends: "appends f g \<Longrightarrow> appends (checked f) g"
  by (subst appends_def) (simp add: checked_exact)

lemma emit_appends: "appends (emit i) (\<lambda>l. [i])"
  by (simp add: appends_def emit_def)

lemma seq_appends: "list_all2 appends fs gs \<Longrightarrow> appends (emit_seq fs) (seq_code gs)"
proof (induction rule: list_all2_induct)
  case Nil
  then show ?case by (simp add: appends_def)
next
  case (Cons f fs g gs)
  have "emit_seq (f # fs) p = Inr (p @ seq_code (g # gs) (length p))
      \<or> emit_seq (f # fs) p = Inl too_large \<and> length p + length (seq_code (g # gs) (length p)) > MAX_PROG" for p
    using Cons.hyps(1) by (rule appendsE [where p = p], use Cons.IH in \<open>rule appendsE [where p = "p @ g (length p)"]\<close>) auto
  then show ?case unfolding appends_def by blast
qed

lemma star_appends: "appends f g \<Longrightarrow> appends (emit_star f) (star_code g)"
  unfolding appends_def
proof
  fix p
  assume f: "\<forall>p. f p = Inr (p @ g (length p)) \<or> f p = Inl too_large \<and> length p + length (g (length p)) > MAX_PROG"
  show "emit_star f p = Inr (p @ star_code g (length p))
      \<or> emit_star f p = Inl too_large \<and> length p + length (star_code g (length p)) > MAX_PROG"
    using f [rule_format, of "p @ [ISplit 0 0]"] by (auto simp: emit_star_def star_code_def Let_def list_update_append)
qed

lemma plus_appends: "appends f g \<Longrightarrow> appends (emit_plus f) (plus_code g)"
  unfolding appends_def
proof
  fix p
  assume f: "\<forall>p. f p = Inr (p @ g (length p)) \<or> f p = Inl too_large \<and> length p + length (g (length p)) > MAX_PROG"
  show "emit_plus f p = Inr (p @ plus_code g (length p))
      \<or> emit_plus f p = Inl too_large \<and> length p + length (plus_code g (length p)) > MAX_PROG"
    using f [rule_format, of p] by (auto simp: emit_plus_def plus_code_def Let_def list_update_append)
qed

lemma quest_appends: "appends f g \<Longrightarrow> appends (emit_quest f) (quest_code g)"
  unfolding appends_def
proof
  fix p
  assume f: "\<forall>p. f p = Inr (p @ g (length p)) \<or> f p = Inl too_large \<and> length p + length (g (length p)) > MAX_PROG"
  show "emit_quest f p = Inr (p @ quest_code g (length p))
      \<or> emit_quest f p = Inl too_large \<and> length p + length (quest_code g (length p)) > MAX_PROG"
    using f [rule_format, of "p @ [ISplit 0 0]"] by (auto simp: emit_quest_def quest_code_def Let_def list_update_append)
qed

text \<open>The alternation patches its jumps at the end.\<close>

lemma fold_update_append:
  "\<forall>k\<in>set ks. length a \<le> k \<Longrightarrow>
   fold (\<lambda>j q. q[j := x]) ks (a @ c) = a @ fold (\<lambda>j q. q[j := x]) (map (\<lambda>k. k - length a) ks) c"
  by (induction ks arbitrary: c) (auto simp: list_update_append)

lemma length_fold_update [simp]: "length (fold (\<lambda>j q. q[j := x]) ks p) = length p"
  by (induction ks arbitrary: p) auto

definition alt_built :: "fragment list \<Rightarrow> inst list \<Rightarrow> nat list \<Rightarrow> string + inst list \<times> nat list \<Rightarrow> bool" where
  "alt_built gs p jmps r \<longleftrightarrow>
     r = Inl too_large \<and> length p + length (alt_code gs (length p)) > MAX_PROG
     \<or> (\<exists>ks c. r = Inr (p @ c, jmps @ ks) \<and> (\<forall>k\<in>set ks. length p \<le> k)
          \<and> fold (\<lambda>j q. q[j := IJmp (length p + length c)]) (map (\<lambda>k. k - length p) ks) c = alt_code gs (length p))"

lemma alt_loop_built: "list_all2 appends fs gs \<Longrightarrow> alt_built gs p jmps (alt_loop fs p jmps)"
proof (induction fs p jmps arbitrary: gs rule: alt_loop.induct)
  case (1 p jmps)
  then show ?case by (simp add: alt_built_def)
next
  case (2 f p jmps)
  then obtain g where g: "gs = [g]" "appends f g" by (auto simp: list_all2_Cons1)
  from g(2) show ?case by (rule appendsE [where p = p]) (auto simp: g(1) alt_built_def)
next
  case (3 f f' fs p jmps)
  then obtain g g' gs' where g: "gs = g # g' # gs'" "appends f g" "list_all2 appends (f' # fs) (g' # gs')"
    by (auto simp: list_all2_Cons1)
  let ?p1 = "p @ [ISplit 0 0]" and ?b = "g (length p + 1)"
  let ?l2 = "length p + length ?b + 2"
  let ?a = "ISplit (length p + 1) ?l2 # ?b @ [IJmp 0]" and ?j = "length p + length ?b + 1"
  let ?rest = "alt_code (g' # gs') ?l2"
  have len: "length (alt_code gs (length p)) = length ?b + 2 + length ?rest" by (simp add: g(1) Let_def)
  from g(2) show ?case
  proof (rule appendsE [where p = ?p1])
    assume "f ?p1 = Inl too_large" "length ?p1 + length (g (length ?p1)) > MAX_PROG"
    then show ?thesis using len by (simp add: alt_built_def Let_def)
  next
    assume f: "f ?p1 = Inr (?p1 @ g (length ?p1))"
    have eq: "alt_loop (f # f' # fs) p jmps = alt_loop (f' # fs) (p @ ?a) (jmps @ [?j])"
      using f by (simp add: Let_def list_update_append)
    have "alt_built (g' # gs') (p @ ?a) (jmps @ [?j]) (alt_loop (f' # fs) (p @ ?a) (jmps @ [?j]))"
      using "3.IH" [OF refl refl refl f refl refl refl g(3)] by (simp add: list_update_append)
    then consider "alt_loop (f # f' # fs) p jmps = Inl too_large" "?l2 + length ?rest > MAX_PROG"
      | ks c where "alt_loop (f # f' # fs) p jmps = Inr ((p @ ?a) @ c, (jmps @ [?j]) @ ks)" "\<forall>k\<in>set ks. ?l2 \<le> k"
        "fold (\<lambda>j q. q[j := IJmp (?l2 + length c)]) (map (\<lambda>k. k - ?l2) ks) c = ?rest"
      unfolding eq alt_built_def by fastforce
    then show ?thesis
    proof cases
      case 1
      then show ?thesis using len by (simp add: alt_built_def)
    next
      case (2 ks c)
      let ?e = "IJmp (?l2 + length c)" and ?sh = "map (\<lambda>k. k - length p) ks"
      have sh: "\<forall>k\<in>set ?sh. length ?a \<le> k" "map (\<lambda>k. k - length ?a) ?sh = map (\<lambda>k. k - ?l2) ks"
        using 2(2) by auto
      have "(?a @ c)[length ?b + 1 := ?e] = (?a[length ?b + 1 := ?e]) @ c" by (simp add: list_update_append)
      then have "fold (\<lambda>j q. q[j := ?e]) (map (\<lambda>k. k - length p) (?j # ks)) (?a @ c)
          = ?a[length ?b + 1 := ?e] @ fold (\<lambda>j q. q[j := ?e]) (map (\<lambda>k. k - length ?a) ?sh) c"
        using fold_update_append [of ?sh "?a[length ?b + 1 := ?e]" ?e c] sh(1) by simp
      also have "\<dots> = alt_code gs (length p)"
      proof -
        have "length c = length ?rest" using 2(3) length_fold_update by metis
        then show ?thesis unfolding sh(2) 2(3) by (simp add: g(1) Let_def list_update_append)
      qed
      finally show ?thesis
        unfolding alt_built_def using 2(1,2)
        by (intro disjI2 exI [of _ "?j # ks"] exI [of _ "?a @ c"]) (auto simp: algebra_simps)
    qed
  qed
qed

lemma alt_appends:
  assumes "list_all2 appends fs gs"
  shows "appends (emit_alt fs) (alt_code gs)"
proof -
  have "emit_alt fs p = Inr (p @ alt_code gs (length p))
      \<or> emit_alt fs p = Inl too_large \<and> length p + length (alt_code gs (length p)) > MAX_PROG" for p
    using alt_loop_built [OF assms, of p "[]"]
    by (auto simp: alt_built_def emit_alt_def Let_def fold_update_append)
  then show ?thesis by (simp add: appends_def)
qed

lemma compile_appends: "appends (compile a) (code a)"
proof (induction a)
  case AEmpty
  then show ?case using checked_appends [of Inr "\<lambda>l. []"] by (simp add: appends_def)
next
  case (ARepeat a lo hi)
  have same: "list_all2 appends (replicate k f) (replicate k g)" if "appends f g" for k f g
    using that by (simp add: list_all2_conv_all_nth)
  show ?case
    using ARepeat
    by (cases hi) (auto intro!: checked_appends seq_appends list_all2_appendI same star_appends quest_appends)
qed (auto intro!: checked_appends emit_appends seq_appends alt_appends star_appends plus_appends quest_appends
    simp: list_all2_conv_all_nth)

text \<open>The compiler places the code of the pattern, or refuses it for its size.\<close>

lemma compile_exact:
  "compile a p = (if length p + length (code a (length p)) > MAX_PROG then Inl too_large else Inr (p @ code a (length p)))"
proof -
  have cap: "length q \<le> MAX_PROG" if "checked f p = Inr q" for f q
    using that by (auto simp: checked_def split: if_splits sum.splits)
  obtain f where "compile a = checked f" by (cases a) auto
  then have "length q \<le> MAX_PROG" if "compile a p = Inr q" for q using that cap by metis
  from this [of "p @ code a (length p)"] show ?thesis using compile_appends [of a] by (auto elim!: appendsE [where p = p])
qed

section \<open>Running a fragment\<close>

text \<open>The moves of one thread: an address and a position.\<close>

definition moves :: "inst list \<Rightarrow> uchar list \<Rightarrow> nat \<times> nat \<Rightarrow> (nat \<times> nat) set" where
  "moves P w c = (case c of (pc, i) \<Rightarrow>
     if pc < length P then
       (case P ! pc of
          IJmp x \<Rightarrow> {(x, i)}
        | ISplit x y \<Rightarrow> {(x, i), (y, i)}
        | IStart \<Rightarrow> if i = 0 then {(pc + 1, i)} else {}
        | IEnd \<Rightarrow> if i = length w then {(pc + 1, i)} else {}
        | I \<Rightarrow> if reads I w i then {(pc + 1, i + 1)} else {})
     else {})"

text \<open>\<open>k\<close> moves, each from an address of the half-open range.\<close>

fun path :: "inst list \<Rightarrow> uchar list \<Rightarrow> nat \<Rightarrow> nat \<Rightarrow> nat \<Rightarrow> nat \<times> nat \<Rightarrow> nat \<times> nat \<Rightarrow> bool" where
  "path P w l h 0 c d = (c = d)"
| "path P w l h (Suc k) c d = (l \<le> fst c \<and> fst c < h \<and> (\<exists>c' \<in> moves P w c. path P w l h k c' d))"

definition run :: "inst list \<Rightarrow> uchar list \<Rightarrow> nat \<Rightarrow> nat \<Rightarrow> (nat \<times> nat) set" where
  "run P w l h = {(i, j). \<exists>k. path P w l h k (l, i) (h, j)}"

text \<open>A range that threads leave only at its end.\<close>

definition closed :: "inst list \<Rightarrow> uchar list \<Rightarrow> nat \<Rightarrow> nat \<Rightarrow> bool" where
  "closed P w l h \<longleftrightarrow> (\<forall>pc i. l \<le> pc \<and> pc < h \<longrightarrow> fst ` moves P w (pc, i) \<subseteq> {l..h})"

lemma path_add: "path P w l h a c d \<Longrightarrow> path P w l h b d e \<Longrightarrow> path P w l h (a + b) c e"
  by (induction a arbitrary: c) auto

lemma path_mono: "path P w l h k c d \<Longrightarrow> l' \<le> l \<Longrightarrow> h \<le> h' \<Longrightarrow> path P w l' h' k c d"
  by (induction k arbitrary: c) auto

text \<open>A path from inside a closed range to a point outside leaves the range at its end.\<close>

lemma path_exit:
  assumes "closed P w l m" and "path P w lo hi k (p, i) (q, j)" and "l \<le> p" and "p \<le> m" and "\<not> (l \<le> q \<and> q < m)"
  shows "\<exists>a b x. path P w l m a (p, i) (m, x) \<and> path P w lo hi b (m, x) (q, j) \<and> k = a + b"
  using assms(2-4)
proof (induction k arbitrary: p i)
  case 0
  then have "path P w l m 0 (p, i) (m, i) \<and> path P w lo hi 0 (m, i) (q, j)" using assms(5) by auto
  then show ?case by fastforce
next
  case (Suc k)
  show ?case
  proof (cases "p = m")
    case True
    then have "path P w l m 0 (p, i) (m, i) \<and> path P w lo hi (Suc k) (m, i) (q, j)" using Suc.prems(1) by simp
    then show ?thesis by fastforce
  next
    case False
    obtain p' i' where m: "(p', i') \<in> moves P w (p, i)" "path P w lo hi k (p', i') (q, j)"
      using Suc.prems(1) by auto
    then have "l \<le> p'" "p' \<le> m" using assms(1) Suc.prems(2,3) False by (fastforce simp: closed_def)+
    then obtain a b x where ab: "path P w l m a (p', i') (m, x)" "path P w lo hi b (m, x) (q, j)" "k = a + b"
      using Suc.IH [OF m(2)] by auto
    moreover have "path P w l m (Suc a) (p, i) (m, x)" using m(1) ab(1) Suc.prems(2,3) False by auto
    ultimately show ?thesis by (intro exI [of _ "Suc a"] exI [of _ b] exI [of _ x]) simp
  qed
qed

text \<open>A path that ends at the end of a closed range stays in it.\<close>

lemma path_inside:
  assumes "closed P w m h" and "path P w lo h k (p, i) (h, j)" and "m \<le> p" and "p \<le> h"
  shows "path P w m h k (p, i) (h, j)"
  using assms(2-4)
proof (induction k arbitrary: p i)
  case (Suc k)
  obtain p' i' where m: "(p', i') \<in> moves P w (p, i)" "path P w lo h k (p', i') (h, j)" "p < h"
    using Suc.prems(1) by auto
  then have "p' \<in> {m..h}" using assms(1) Suc.prems(2) by (fastforce simp: closed_def)
  then show ?case using m Suc.IH [OF m(2)] Suc.prems(2) by auto
qed simp

lemma run_seq:
  assumes "closed P w l m" and "closed P w m h" and "l \<le> m" and "m \<le> h"
  shows "run P w l h = run P w l m O run P w m h"
proof (intro set_eqI iffI; clarify)
  fix i j
  assume "(i, j) \<in> run P w l h"
  then obtain k where k: "path P w l h k (l, i) (h, j)" by (auto simp: run_def)
  obtain a b x where ab: "path P w l m a (l, i) (m, x)" "path P w l h b (m, x) (h, j)"
    using path_exit [OF assms(1) k] assms(3,4) by auto
  then have "path P w m h b (m, x) (h, j)" using path_inside [OF assms(2)] assms(4) by simp
  with ab show "(i, j) \<in> run P w l m O run P w m h" by (auto simp: run_def)
next
  fix i x j
  assume "(i, x) \<in> run P w l m" "(x, j) \<in> run P w m h"
  then obtain a b where "path P w l m a (l, i) (m, x)" "path P w m h b (m, x) (h, j)" by (auto simp: run_def)
  then have "path P w l h (a + b) (l, i) (h, j)" using path_add path_mono assms(3,4) by (metis le_refl)
  then show "(i, j) \<in> run P w l h" by (auto simp: run_def)
qed

lemma closedD: "closed P w l h \<Longrightarrow> l \<le> pc \<Longrightarrow> pc < h \<Longrightarrow> (pc', i') \<in> moves P w (pc, i) \<Longrightarrow> l \<le> pc' \<and> pc' \<le> h"
  by (force simp: closed_def)

lemma closedI:
  "(\<And>pc i pc' i'. l \<le> pc \<Longrightarrow> pc < h \<Longrightarrow> (pc', i') \<in> moves P w (pc, i) \<Longrightarrow> l \<le> pc' \<and> pc' \<le> h) \<Longrightarrow> closed P w l h"
  by (force simp: closed_def)

lemma closed_seq:
  assumes "closed P w l m" and "closed P w m h" and "l \<le> m" and "m \<le> h"
  shows "closed P w l h"
proof (rule closedI)
  fix pc i pc' i'
  assume "l \<le> pc" "pc < h" "(pc', i') \<in> moves P w (pc, i)"
  then show "l \<le> pc' \<and> pc' \<le> h" using closedD [OF assms(1)] closedD [OF assms(2)] assms(3,4)
    by (metis linorder_not_less order.trans)
qed

lemma path_end: "path P w l h k (h, i) d \<Longrightarrow> k = 0 \<and> d = (h, i)"
  by (cases k) auto

section \<open>Fragments and relations\<close>

definition placed :: "inst list \<Rightarrow> nat \<Rightarrow> inst list \<Rightarrow> bool" where
  "placed P l c \<longleftrightarrow> (\<exists>A B. P = A @ c @ B \<and> length A = l)"

lemma placed_append:
  assumes "placed P l (c @ d)"
  shows "placed P l c \<and> placed P (l + length c) d"
proof -
  obtain A B where P: "P = A @ (c @ d) @ B" "length A = l" using assms by (auto simp: placed_def)
  then have "P = A @ c @ (d @ B)" "P = (A @ c) @ d @ B" by simp_all
  then show ?thesis unfolding placed_def using P(2) by (metis length_append)
qed

lemma placed_Cons:
  assumes "placed P l (i # c)"
  shows "l < length P \<and> P ! l = i \<and> placed P (Suc l) c"
proof -
  obtain A B where P: "P = A @ (i # c) @ B" "length A = l" using assms by (auto simp: placed_def)
  then have "l < length P \<and> P ! l = i" by (auto simp: nth_append)
  then show ?thesis using placed_append [of P l "[i]" c] assms by simp
qed

definition implements :: "uchar list \<Rightarrow> fragment \<Rightarrow> (nat \<times> nat) set \<Rightarrow> bool" where
  "implements w f R \<longleftrightarrow>
     (\<forall>P l. placed P l (f l) \<longrightarrow> closed P w l (l + length (f l)) \<and> run P w l (l + length (f l)) = R)"

lemma implementsI:
  "(\<And>P l. placed P l (f l) \<Longrightarrow> closed P w l (l + length (f l)) \<and> run P w l (l + length (f l)) = R) \<Longrightarrow> implements w f R"
  by (simp add: implements_def)

lemma implementsD:
  "implements w f R \<Longrightarrow> placed P l (f l) \<Longrightarrow> closed P w l (l + length (f l))"
  "implements w f R \<Longrightarrow> placed P l (f l) \<Longrightarrow> run P w l (l + length (f l)) = R"
  by (simp_all add: implements_def)

lemma implements_nothing: "implements w (\<lambda>l. []) Id"
proof (rule implementsI)
  fix P l
  show "closed P w l (l + length []) \<and> run P w l (l + length []) = Id"
    by (auto simp: closed_def run_def dest: path_end intro: exI [of _ 0])
qed

lemma implements_one:
  assumes "\<And>P l i. l < length P \<Longrightarrow> P ! l = I \<Longrightarrow> moves P w (l, i) = {(Suc l, j) | j. (i, j) \<in> R}"
  shows "implements w (\<lambda>l. [I]) R"
proof (rule implementsI)
  fix P l
  assume "placed P l [I]"
  then have m: "moves P w (l, i) = {(Suc l, j) | j. (i, j) \<in> R}" for i using assms placed_Cons by blast
  have "(i, j) \<in> R" if "path P w l (Suc l) k (l, i) (Suc l, j)" for i j k
    using that by (cases k) (auto simp: m dest: path_end)
  moreover have "path P w l (Suc l) 1 (l, i) (Suc l, j)" if "(i, j) \<in> R" for i j using that by (simp add: m)
  ultimately have "run P w l (Suc l) = R" unfolding run_def by blast
  moreover have "closed P w l (Suc l)" by (rule closedI) (auto simp: m le_less_Suc_eq)
  ultimately show "closed P w l (l + length [I]) \<and> run P w l (l + length [I]) = R" by simp
qed

lemma implements_atoms:
  "implements w (\<lambda>l. [IChar c]) (sem w (AChar c))" "implements w (\<lambda>l. [IAny]) (sem w AAny)"
  "implements w (\<lambda>l. [IClass items neg]) (sem w (AClass items neg))"
  "implements w (\<lambda>l. [IStart]) (sem w AStart)" "implements w (\<lambda>l. [IEnd]) (sem w AEnd)"
  by (rule implements_one, auto simp: moves_def reads_def)+

lemma implements_seq: "list_all2 (implements w) fs Rs \<Longrightarrow> implements w (seq_code fs) (foldr (O) Rs Id)"
proof (induction rule: list_all2_induct)
  case Nil
  then show ?case using implements_nothing by simp
next
  case (Cons f fs R Rs)
  show ?case
  proof (rule implementsI)
    fix P l
    assume "placed P l (seq_code (f # fs) l)"
    then have p: "placed P l (f l)" "placed P (l + length (f l)) (seq_code fs (l + length (f l)))"
      using placed_append by auto
    note f = implementsD [OF Cons.hyps(1) p(1)] and fs = implementsD [OF Cons.IH p(2)]
    let ?h = "l + length (f l) + length (seq_code fs (l + length (f l)))"
    have "closed P w l ?h" using closed_seq [OF f(1) fs(1)] by simp
    moreover have "run P w l ?h = R O foldr (O) Rs Id" using run_seq [OF f(1) fs(1)] f(2) fs(2) by simp
    ultimately show "closed P w l (l + length (seq_code (f # fs) l))
        \<and> run P w l (l + length (seq_code (f # fs) l)) = foldr (O) (R # Rs) Id" by (simp add: add.assoc)
  qed
qed

lemma implements_star:
  assumes "implements w f R"
  shows "implements w (star_code f) (R\<^sup>*)"
proof (rule implementsI)
  fix P l
  assume "placed P l (star_code f l)"
  define m h where "m = l + 1 + length (f (l + 1))" and "h = m + 1"
  have h: "l + length (star_code f l) = h" by (simp add: star_code_def m_def h_def Let_def)
  have pl: "placed P l (ISplit (l + 1) h # f (l + 1) @ [IJmp l])"
    using \<open>placed P l (star_code f l)\<close> by (simp add: star_code_def m_def h_def Let_def)
  then have at_l: "l < length P" "P ! l = ISplit (l + 1) h" and body: "placed P (l + 1) (f (l + 1))"
    and at_m: "m < length P" "P ! m = IJmp l"
    by (auto dest!: placed_Cons placed_append simp: m_def)
  note b = implementsD [OF assms body, folded m_def]
  have mv: "moves P w (l, i) = {(l + 1, i), (h, i)}" "moves P w (m, i) = {(l, i)}" for i
    using at_l at_m by (auto simp: moves_def)
  have le: "l < m" "m < h" by (simp_all add: m_def h_def)
  have "closed P w l h"
  proof (rule closedI)
    fix pc i pc' i'
    assume *: "l \<le> pc" "pc < h" "(pc', i') \<in> moves P w (pc, i)"
    then consider "pc = l" | "l + 1 \<le> pc" "pc < m" | "pc = m" unfolding h_def by linarith
    then show "l \<le> pc' \<and> pc' \<le> h"
      by cases (use * le mv closedD [OF b(1) _ _ *(3)] in auto)
  qed
  moreover have "(i, j) \<in> R\<^sup>*" if "path P w l h k (l, i) (h, j)" for i j k
    using that
  proof (induction k arbitrary: i rule: less_induct)
    case (less k)
    obtain k' p x where k: "k = Suc k'" "(p, x) \<in> moves P w (l, i)" "path P w l h k' (p, x) (h, j)"
      using less.prems le by (cases k) auto
    then consider "p = h" "x = i" | "p = l + 1" "x = i" by (auto simp: mv)
    then show ?case
    proof cases
      case 1
      then show ?thesis using path_end k(3) by blast
    next
      case 2
      then obtain a c y where ab: "path P w (l + 1) m a (l + 1, i) (m, y)" "path P w l h c (m, y) (h, j)" "k' = a + c"
        using path_exit [OF b(1), of l h k' "l + 1" i h j] k(3) le by auto
      then obtain c' where "c = Suc c'" "path P w l h c' (l, y) (h, j)" using le by (cases c) (auto simp: mv)
      then have "(y, j) \<in> R\<^sup>*" using less.IH [of c' y] ab(3) k(1) by simp
      moreover have "(i, y) \<in> R" using ab(1) b(2) by (auto simp: run_def)
      ultimately show ?thesis by simp
    qed
  qed
  moreover have "\<exists>k. path P w l h k (l, i) (h, j)" if "(i, j) \<in> R\<^sup>*" for i j
    using that
  proof (induction rule: converse_rtrancl_induct)
    case base
    have "path P w l h 1 (l, j) (h, j)" using le by (simp add: mv)
    then show ?case by blast
  next
    case (step i y)
    then obtain a c where ac: "path P w (l + 1) m a (l + 1, i) (m, y)" "path P w l h c (l, y) (h, j)"
      using b(2) by (auto simp: run_def)
    have "path P w l h a (l + 1, i) (m, y)" using path_mono [OF ac(1)] le by simp
    moreover have "path P w l h (Suc c) (m, y) (h, j)" using ac(2) le by (simp add: mv)
    ultimately have "path P w l h (a + Suc c) (l + 1, i) (h, j)" by (rule path_add)
    then have "path P w l h (Suc (a + Suc c)) (l, i) (h, j)" using le by (simp add: mv del: add_Suc_right)
    then show ?case by blast
  qed
  ultimately show "closed P w l (l + length (star_code f l)) \<and> run P w l (l + length (star_code f l)) = R\<^sup>*"
    unfolding h by (auto simp: run_def)
qed

lemma implements_plus:
  assumes "implements w f R"
  shows "implements w (plus_code f) (R\<^sup>+)"
proof (rule implementsI)
  fix P l
  assume "placed P l (plus_code f l)"
  define m h where "m = l + length (f l)" and "h = m + 1"
  have h: "l + length (plus_code f l) = h" by (simp add: plus_code_def m_def h_def Let_def)
  have "placed P l (f l @ [ISplit l h])"
    using \<open>placed P l (plus_code f l)\<close> by (simp add: plus_code_def m_def h_def Let_def)
  then have body: "placed P l (f l)" and at_m: "m < length P" "P ! m = ISplit l h"
    by (auto dest!: placed_Cons placed_append simp: m_def)
  note b = implementsD [OF assms body, folded m_def]
  have mv: "moves P w (m, i) = {(l, i), (h, i)}" for i using at_m by (auto simp: moves_def)
  have le: "l \<le> m" "m < h" by (simp_all add: m_def h_def)
  have "closed P w l h"
  proof (rule closedI)
    fix pc i pc' i'
    assume *: "l \<le> pc" "pc < h" "(pc', i') \<in> moves P w (pc, i)"
    then consider "pc < m" | "pc = m" unfolding h_def by linarith
    then show "l \<le> pc' \<and> pc' \<le> h" by cases (use * le mv closedD [OF b(1) _ _ *(3)] in auto)
  qed
  moreover have "(i, j) \<in> R\<^sup>+" if "path P w l h k (l, i) (h, j)" for i j k
    using that
  proof (induction k arbitrary: i rule: less_induct)
    case (less k)
    obtain a c y where ab: "path P w l m a (l, i) (m, y)" "path P w l h c (m, y) (h, j)" "k = a + c"
      using path_exit [OF b(1) less.prems] le by auto
    then have iy: "(i, y) \<in> R" using b(2) by (auto simp: run_def)
    obtain c' p x where c: "c = Suc c'" "(p, x) \<in> moves P w (m, y)" "path P w l h c' (p, x) (h, j)"
      using ab(2) le by (cases c) auto
    then consider "p = h" "x = y" | "p = l" "x = y" by (auto simp: mv)
    then show ?case
    proof cases
      case 1
      then show ?thesis using path_end c(3) iy by blast
    next
      case 2
      then have "(y, j) \<in> R\<^sup>+" using less.IH [of c'] c ab(3) by simp
      then show ?thesis using iy by simp
    qed
  qed
  moreover have "\<exists>k. path P w l h k (l, i) (h, j)" if "(i, j) \<in> R\<^sup>+" for i j
    using that
  proof (induction rule: converse_trancl_induct)
    case (base i)
    then obtain a where a: "path P w l m a (l, i) (m, j)" using b(2) by (auto simp: run_def)
    have "path P w l h 1 (m, j) (h, j)" using le by (simp add: mv)
    then show ?case using path_add [OF path_mono [OF a]] le by (meson le_refl less_imp_le)
  next
    case (step i y)
    then obtain a c where ac: "path P w l m a (l, i) (m, y)" "path P w l h c (l, y) (h, j)"
      using b(2) by (auto simp: run_def)
    have "path P w l h (Suc c) (m, y) (h, j)" using ac(2) le by (simp add: mv)
    then show ?case using path_add [OF path_mono [OF ac(1)]] le by (meson le_refl less_imp_le)
  qed
  ultimately show "closed P w l (l + length (plus_code f l)) \<and> run P w l (l + length (plus_code f l)) = R\<^sup>+"
    unfolding h by (auto simp: run_def)
qed

text \<open>A split between two fragments that meet at the end; the first may end in a jump.\<close>

lemma run_branch:
  assumes split: "\<And>i. moves P w (l, i) = {(l + 1, i), (l2, i)}"
    and first: "closed P w (l + 1) m" "run P w (l + 1) m = R"
    and jump: "m = h \<or> m < h \<and> (\<forall>i. moves P w (m, i) = {(h, i)})"
    and second: "closed P w l2 h" "run P w l2 h = S"
    and le: "l < m" "m \<le> l2" "l2 \<le> h" "l2 \<le> m + 1" "m = h \<longrightarrow> l2 = h" "m < h \<longrightarrow> m < l2"
  shows "closed P w l h \<and> run P w l h = R \<union> S"
proof -
  have closed: "closed P w l h"
  proof (rule closedI)
    fix pc i pc' i'
    assume *: "l \<le> pc" "pc < h" "(pc', i') \<in> moves P w (pc, i)"
    then consider "pc = l" | "l + 1 \<le> pc" "pc < m" | "pc = m" "m < h" | "l2 \<le> pc" using le by linarith
    then show "l \<le> pc' \<and> pc' \<le> h"
      by cases (use * le split jump closedD [OF first(1) _ _ *(3)] closedD [OF second(1) _ _ *(3)] in auto)
  qed
  have "(i, j) \<in> R \<union> S" if pa: "path P w l h k (l, i) (h, j)" for i j k
  proof -
    obtain k' p x where k: "(p, x) \<in> moves P w (l, i)" "path P w l h k' (p, x) (h, j)" using pa le by (cases k) auto
    then consider "p = l2" "x = i" | "p = l + 1" "x = i" by (auto simp: split)
    then show ?thesis
    proof cases
      case 1
      then have "path P w l2 h k' (l2, i) (h, j)" using path_inside [OF second(1)] k(2) le by simp
      then show ?thesis using second(2) by (auto simp: run_def)
    next
      case 2
      then obtain a c y where ac: "path P w (l + 1) m a (l + 1, i) (m, y)" "path P w l h c (m, y) (h, j)"
        using path_exit [OF first(1), of l h k' "l + 1" i h j] k(2) le by auto
      have "y = j" using ac(2) jump by (cases c) (auto dest: path_end)
      then show ?thesis using ac(1) first(2) by (auto simp: run_def)
    qed
  qed
  moreover have "\<exists>k. path P w l h k (l, i) (h, j)" if ij: "(i, j) \<in> S" for i j
  proof -
    obtain a where "path P w l2 h a (l2, i) (h, j)" using ij second(2) by (auto simp: run_def)
    then have "path P w l h a (l2, i) (h, j)" using path_mono le by (metis less_imp_le order.trans order_refl)
    then have "path P w l h (Suc a) (l, i) (h, j)" using le by (auto simp: split)
    then show ?thesis by blast
  qed
  moreover have "\<exists>k. path P w l h k (l, i) (h, j)" if ij: "(i, j) \<in> R" for i j
  proof -
    obtain a where a: "path P w (l + 1) m a (l + 1, i) (m, j)" using ij first(2) by (auto simp: run_def)
    have "path P w l h a (l + 1, i) (m, j)" using path_mono [OF a, of l h] le by simp
    moreover have "\<exists>c. path P w l h c (m, j) (h, j)"
      using jump le by (elim disjE) (auto intro: exI [of _ 0] exI [of _ 1])
    ultimately obtain k where "path P w l h k (l + 1, i) (h, j)" using path_add by blast
    then have "path P w l h (Suc k) (l, i) (h, j)" using le by (auto simp: split)
    then show ?thesis by blast
  qed
  ultimately show ?thesis using closed by (auto simp: run_def)
qed

lemma implements_quest:
  assumes "implements w f R"
  shows "implements w (quest_code f) (Id \<union> R)"
proof (rule implementsI)
  fix P l
  assume pl: "placed P l (quest_code f l)"
  define h where "h = l + 1 + length (f (l + 1))"
  have "l < length P \<and> P ! l = ISplit (l + 1) h" and body: "placed P (l + 1) (f (l + 1))"
    using placed_Cons [of P l "ISplit (l + 1) h" "f (l + 1)"] pl by (simp_all add: quest_code_def h_def Let_def)
  then have mv: "moves P w (l, i) = {(l + 1, i), (h, i)}" for i by (auto simp: moves_def)
  have "closed P w h h \<and> run P w h h = Id"
    using implementsD [OF implements_nothing, of P h w] by (auto simp: placed_def closed_def run_def dest: path_end intro: exI [of _ 0])
  then have "closed P w l h \<and> run P w l h = R \<union> Id"
    using run_branch [OF mv, of h R h Id] implementsD [OF assms body, folded h_def] by (simp add: h_def)
  then show "closed P w l (l + length (quest_code f l)) \<and> run P w l (l + length (quest_code f l)) = Id \<union> R"
    by (simp add: quest_code_def h_def Let_def Un_commute)
qed

lemma implements_alt:
  "fs \<noteq> [] \<Longrightarrow> list_all2 (implements w) fs Rs \<Longrightarrow> implements w (alt_code fs) (\<Union> (set Rs))"
proof (induction fs arbitrary: Rs rule: induct_list012)
  case (2 f)
  then show ?case by (auto simp: list_all2_Cons1 implements_def)
next
  case (3 f g fs)
  then obtain R S where R: "Rs = R # S" "implements w f R" "list_all2 (implements w) (g # fs) S"
    by (auto simp: list_all2_Cons1)
  have rest: "implements w (alt_code (g # fs)) (\<Union> (set S))" using 3 R(3) by blast
  show ?case
  proof (rule implementsI)
    fix P l
    assume pl: "placed P l (alt_code (f # g # fs) l)"
    define m l2 where "m = l + 1 + length (f (l + 1))" and "l2 = m + 1"
    define h where "h = l2 + length (alt_code (g # fs) l2)"
    have "placed P l (ISplit (l + 1) l2 # f (l + 1) @ IJmp h # alt_code (g # fs) l2)"
      using pl by (simp add: m_def l2_def h_def Let_def)
    then have at_l: "l < length P" "P ! l = ISplit (l + 1) l2" and body: "placed P (l + 1) (f (l + 1))"
      and at_m: "m < length P" "P ! m = IJmp h" and others: "placed P l2 (alt_code (g # fs) l2)"
      by (auto dest!: placed_Cons placed_append simp: m_def l2_def)
    have mv: "moves P w (l, i) = {(l + 1, i), (l2, i)}" "moves P w (m, i) = {(h, i)}" for i
      using at_l at_m by (auto simp: moves_def)
    note f = implementsD [OF R(2) body, folded m_def] and r = implementsD [OF rest others, folded h_def]
    have "closed P w l h \<and> run P w l h = R \<union> \<Union> (set S)"
      using run_branch [OF mv(1) f _ r] mv(2) by (simp add: m_def l2_def h_def)
    moreover have "l + length (alt_code (f # g # fs) l) = h" by (simp add: m_def l2_def h_def Let_def)
    ultimately show "closed P w l (l + length (alt_code (f # g # fs) l))
        \<and> run P w l (l + length (alt_code (f # g # fs) l)) = \<Union> (set Rs)"
      unfolding R(1) by simp
  qed
qed simp

lemma foldr_relcomp_append: "foldr (O) (xs @ ys) Id = foldr (O) xs Id O foldr (O) ys Id"
  by (induction xs) (simp_all add: O_assoc)

lemma foldr_replicate: "foldr (O) (replicate k R) Id = R ^^ k"
  by (induction k) (simp_all add: relpow_commute)

lemma relpow_Un_Id: "(Id \<union> R) ^^ k = (\<Union>j\<in>{..k}. R ^^ j)"
proof (induction k)
  case (Suc k)
  have "(Id \<union> R) ^^ Suc k = (\<Union>j\<in>{..k}. R ^^ j) \<union> (\<Union>j\<in>{..k}. R ^^ Suc j)"
    unfolding relpow.simps(2) [of k "Id \<union> R"] Suc by auto
  also have "\<dots> = (\<Union>j\<in>{..k} \<union> Suc ` {..k}. R ^^ j)" by auto
  also have "{..k} \<union> Suc ` {..k} = {..Suc k}" by (auto simp: image_iff le_Suc_eq)
  finally show ?case .
qed auto

lemma repeat_unbounded: "R ^^ lo O R\<^sup>* = (\<Union>k\<in>{lo..}. R ^^ k)"
proof -
  have "R ^^ lo O R\<^sup>* = (\<Union>j. R ^^ (lo + j))" by (simp add: rtrancl_is_UN_relpow relcomp_UNION_distrib relpow_add)
  also have "\<dots> = (\<Union>k\<in>range ((+) lo). R ^^ k)" by simp
  also have "range ((+) lo) = {lo..}" by (auto simp: image_iff le_iff_add)
  finally show ?thesis .
qed

lemma repeat_bounded: "lo \<le> mx \<Longrightarrow> R ^^ lo O (Id \<union> R) ^^ (mx - lo) = (\<Union>k\<in>{lo..mx}. R ^^ k)"
proof -
  assume le: "lo \<le> mx"
  have "R ^^ lo O (Id \<union> R) ^^ (mx - lo) = (\<Union>j\<in>{..mx - lo}. R ^^ (lo + j))"
    by (simp add: relpow_Un_Id relcomp_UNION_distrib relpow_add)
  also have "\<dots> = (\<Union>k\<in>(+) lo ` {..mx - lo}. R ^^ k)" by simp
  also have "(+) lo ` {..mx - lo} = {lo..mx}" using le by (simp add: atMost_atLeast0)
  finally show ?thesis .
qed

theorem code_implements: "wf_ast a \<Longrightarrow> implements w (code a) (sem w a)"
proof (induction a)
  case (AConcat v)
  then have "list_all2 (implements w) (map code v) (map (sem w) v)" by (auto simp: list_all2_conv_all_nth list_all_iff)
  then show ?case using implements_seq by simp
next
  case (AAlt v)
  then have "list_all2 (implements w) (map code v) (map (sem w) v)" by (auto simp: list_all2_conv_all_nth list_all_iff)
  from implements_alt [OF _ this] show ?case using AAlt.prems by simp
next
  case (ARepeat a lo hi)
  let ?R = "sem w a"
  have f: "implements w (code a) ?R" using ARepeat by simp
  have same: "list_all2 (implements w) (replicate k g) (replicate k S)" if "implements w g S" for k g S
    using that by (simp add: list_all2_conv_all_nth)
  show ?case
  proof (cases hi)
    case None
    have "implements w (seq_code (replicate lo (code a) @ [star_code (code a)])) (foldr (O) (replicate lo ?R @ [?R\<^sup>*]) Id)"
      by (intro implements_seq list_all2_appendI same f) (simp add: implements_star [OF f])
    then show ?thesis unfolding foldr_relcomp_append foldr_replicate by (simp add: None repeat_unbounded)
  next
    case (Some mx)
    have "implements w (seq_code (replicate lo (code a) @ replicate (mx - lo) (quest_code (code a))))
        (foldr (O) (replicate lo ?R @ replicate (mx - lo) (Id \<union> ?R)) Id)"
      by (intro implements_seq list_all2_appendI same f implements_quest)
    then show ?thesis
      unfolding foldr_relcomp_append foldr_replicate using ARepeat.prems by (simp add: Some repeat_bounded)
  qed
qed (use implements_nothing implements_atoms implements_star implements_plus implements_quest in auto)

end
