(* ===== verification/RegexMatch.thy ===== *)
theory RegexMatch
  imports RegexCompile
begin

text \<open>
  The matcher of \<open>src/regex.rs\<close> explores exactly the reachable threads of a program: it never panics,
  and it reports a match exactly when the pattern has one.
\<close>

section \<open>Reachable threads\<close>

text \<open>A thread waits at an instruction that is not followed at once.\<close>

definition waits :: "inst \<Rightarrow> bool" where
  "waits I = (case I of IJmp x \<Rightarrow> False | ISplit x y \<Rightarrow> False | IStart \<Rightarrow> False | IEnd \<Rightarrow> False | _ \<Rightarrow> True)"

definition eps :: "inst list \<Rightarrow> nat \<Rightarrow> nat \<Rightarrow> nat \<Rightarrow> nat list" where
  "eps P pos n pc =
     (case P ! pc of
        IJmp x \<Rightarrow> [x]
      | ISplit x y \<Rightarrow> [x, y]
      | IStart \<Rightarrow> if pos = 0 then [pc + 1] else []
      | IEnd \<Rightarrow> if pos = n then [pc + 1] else []
      | _ \<Rightarrow> [])"

definition eps_rel :: "inst list \<Rightarrow> nat \<Rightarrow> nat \<Rightarrow> (nat \<times> nat) set" where
  "eps_rel P pos n = {(p, q). p < length P \<and> q \<in> set (eps P pos n p)}"

text \<open>Every instruction leads to an address of the program.\<close>

definition target_ok :: "nat \<Rightarrow> nat \<Rightarrow> inst \<Rightarrow> bool" where
  "target_ok len pc I =
     (case I of
        IJmp x \<Rightarrow> x < len
      | ISplit x y \<Rightarrow> x < len \<and> y < len
      | IMatch \<Rightarrow> True
      | IMatchN _ \<Rightarrow> True
      | _ \<Rightarrow> pc + 1 < len)"

definition targets_ok :: "inst list \<Rightarrow> bool" where
  "targets_ok P \<longleftrightarrow> (\<forall>pc < length P. target_ok (length P) pc (P ! pc))"

lemma eps_in_range: "targets_ok P \<Longrightarrow> pc < length P \<Longrightarrow> q \<in> set (eps P pos n pc) \<Longrightarrow> q < length P"
  unfolding targets_ok_def by (drule spec [of _ pc], cases "P ! pc") (auto simp: target_ok_def eps_def split: if_splits)

lemma reads_in_range: "targets_ok P \<Longrightarrow> pc < length P \<Longrightarrow> reads (P ! pc) w i \<Longrightarrow> pc + 1 < length P"
  unfolding targets_ok_def by (drule spec [of _ pc], cases "P ! pc") (auto simp: target_ok_def reads_def)

definition marked :: "nat list \<Rightarrow> nat \<Rightarrow> nat set" where
  "marked seen gen = {pc. pc < length seen \<and> seen ! pc = gen}"

lemma marked_update: "pc < length seen \<Longrightarrow> marked (seen[pc := gen]) gen = insert pc (marked seen gen)"
  by (auto simp: marked_def nth_list_update)

lemma add_thread_step:
  assumes "pc < length seen" and "seen ! pc \<noteq> gen" and "pc < length P"
  shows "add_thread P gen pos n (pc # stack) lst seen
    = add_thread P gen pos n (eps P pos n pc @ stack) (if waits (P ! pc) then lst @ [pc] else lst) (seen[pc := gen])"
  using assms by (cases "P ! pc") (auto simp: add_thread.simps(2) eps_def waits_def)

text \<open>What a call of \<open>add_thread\<close> adds: the threads reachable from the stack.\<close>

definition explored ::
  "inst list \<Rightarrow> nat \<Rightarrow> nat \<Rightarrow> nat \<Rightarrow> nat list \<Rightarrow> nat list \<Rightarrow> nat list \<Rightarrow> nat list \<Rightarrow> nat list \<Rightarrow> bool" where
  "explored P gen pos n stack lst seen lst' seen' \<longleftrightarrow>
     (let V = marked seen gen; V' = marked seen' gen in
      length seen' = length seen \<and> (\<forall>pc < length seen. seen' ! pc = seen ! pc \<or> seen' ! pc = gen)
      \<and> V \<subseteq> V' \<and> set stack \<subseteq> V' \<and> V' \<subseteq> V \<union> (eps_rel P pos n)\<^sup>* `` set stack
      \<and> (\<forall>p \<in> V' - V. set (eps P pos n p) \<subseteq> V')
      \<and> set lst' = set lst \<union> {p \<in> V' - V. waits (P ! p)}
      \<and> (distinct lst \<longrightarrow> set lst \<subseteq> V \<longrightarrow> distinct lst'))"

lemma explored_skip:
  assumes "explored P gen pos n stack lst seen lst' seen'" and "pc \<in> marked seen gen"
  shows "explored P gen pos n (pc # stack) lst seen lst' seen'"
  using assms unfolding explored_def Let_def by auto

lemma explored_step:
  assumes "explored P gen pos n (eps P pos n pc @ stack) (if waits (P ! pc) then lst @ [pc] else lst) (seen[pc := gen]) lst' seen'"
    and "pc < length seen" and "seen ! pc \<noteq> gen" and "pc < length P"
  shows "explored P gen pos n (pc # stack) lst seen lst' seen'"
proof -
  let ?R = "eps_rel P pos n" and ?V = "marked seen gen" and ?V' = "marked seen' gen"
  have V1: "marked (seen[pc := gen]) gen = insert pc ?V" by (rule marked_update [OF assms(2)])
  have pc: "pc \<notin> ?V" using assms(3) by (simp add: marked_def)
  note e = assms(1) [unfolded explored_def Let_def V1]
  have "?R\<^sup>* `` set (eps P pos n pc @ stack) \<subseteq> ?R\<^sup>* `` set (pc # stack)"
    using assms(4) by (auto simp: eps_rel_def intro: converse_rtrancl_into_rtrancl)
  moreover have "pc \<in> ?R\<^sup>* `` set (pc # stack)" by auto
  ultimately have "?V' \<subseteq> ?V \<union> ?R\<^sup>* `` set (pc # stack)" using e by blast
  moreover have "set (eps P pos n p) \<subseteq> ?V'" if "p \<in> ?V' - ?V" for p using that e by (cases "p = pc") auto
  moreover have "set lst' = set lst \<union> {p \<in> ?V' - ?V. waits (P ! p)}" using e pc by (auto split: if_splits)
  moreover have "seen' ! q = seen ! q \<or> seen' ! q = gen" if "q < length seen" for q
    using e that by (cases "q = pc") auto
  moreover have "distinct lst \<Longrightarrow> set lst \<subseteq> ?V \<Longrightarrow> distinct lst'" using e pc by (auto split: if_splits)
  ultimately show ?thesis using e unfolding explored_def Let_def by auto
qed

lemma add_thread_explores:
  assumes "targets_ok P" and "length seen = length P" and "set stack \<subseteq> {..<length P}"
  shows "\<exists>lst' seen'. add_thread P gen pos n stack lst seen = Some (lst', seen')
    \<and> explored P gen pos n stack lst seen lst' seen'"
  using assms(2,3)
proof (induction "2 * length (filter (\<lambda>g. g \<noteq> gen) seen) + length stack" arbitrary: stack lst seen rule: less_induct)
  case less
  show ?case
  proof (cases stack)
    case Nil
    then show ?thesis by (auto simp: explored_def Let_def)
  next
    case (Cons pc st)
    then have pc: "pc < length P" "pc < length seen" using less.prems by auto
    show ?thesis
    proof (cases "seen ! pc = gen")
      case True
      then have "pc \<in> marked seen gen" using pc by (simp add: marked_def)
      then show ?thesis
        using less.hyps [of seen st lst] less.prems pc True explored_skip by (fastforce simp: Cons add_thread.simps(2))
    next
      case False
      let ?lst = "if waits (P ! pc) then lst @ [pc] else lst" and ?st = "eps P pos n pc @ st"
      have "length (eps P pos n pc) \<le> 2" by (simp add: eps_def split: inst.split)
      moreover have "length (filter (\<lambda>g. g \<noteq> gen) (seen[pc := gen])) < length (filter (\<lambda>g. g \<noteq> gen) seen)"
        using filter_mark [of seen pc gen] pc False by simp
      moreover have "set ?st \<subseteq> {..<length P}" using eps_in_range [OF assms(1) pc(1)] less.prems by (auto simp: Cons)
      ultimately obtain lst' seen' where r: "add_thread P gen pos n ?st ?lst (seen[pc := gen]) = Some (lst', seen')"
        "explored P gen pos n ?st ?lst (seen[pc := gen]) lst' seen'"
        using less.hyps [of "seen[pc := gen]" ?st ?lst] less.prems by (auto simp: Cons)
      then show ?thesis
        using add_thread_step [OF pc(2) False pc(1), of pos n st lst] explored_step [OF r(2) pc(2) False pc(1)]
        by (auto simp: Cons)
    qed
  qed
qed

text \<open>When the marked set is closed, a call extends it to the closure of the stack.\<close>

lemma explored_closure:
  assumes "explored P gen pos n stack lst seen lst' seen'" and "eps_rel P pos n `` marked seen gen \<subseteq> marked seen gen"
  shows "marked seen' gen = marked seen gen \<union> (eps_rel P pos n)\<^sup>* `` set stack"
    "eps_rel P pos n `` marked seen' gen \<subseteq> marked seen' gen"
proof -
  let ?R = "eps_rel P pos n" and ?V = "marked seen gen" and ?V' = "marked seen' gen"
  note e = assms(1) [unfolded explored_def Let_def]
  show step: "?R `` ?V' \<subseteq> ?V'"
  proof
    fix q
    assume "q \<in> ?R `` ?V'"
    then obtain p where p: "p \<in> ?V'" "(p, q) \<in> ?R" by auto
    show "q \<in> ?V'"
    proof (cases "p \<in> ?V")
      case True
      then have "q \<in> ?V" using assms(2) p(2) by blast
      then show ?thesis using e by blast
    next
      case False
      then have "set (eps P pos n p) \<subseteq> ?V'" using e p(1) by blast
      then show ?thesis using p(2) by (auto simp: eps_rel_def)
    qed
  qed
  have "?R\<^sup>* `` ?V' \<subseteq> ?V'" using Image_closed_trancl [OF step] by simp
  then show "?V' = ?V \<union> ?R\<^sup>* `` set stack" using e by blast
qed

section \<open>Threads by position\<close>

definition move_rel :: "inst list \<Rightarrow> uchar list \<Rightarrow> ((nat \<times> nat) \<times> (nat \<times> nat)) set" where
  "move_rel P w = {(c, d). d \<in> moves P w c}"

definition reach :: "inst list \<Rightarrow> uchar list \<Rightarrow> nat set \<Rightarrow> nat \<Rightarrow> nat set" where
  "reach P w S i = {pc. \<exists>s \<in> S. ((s, 0), (pc, i)) \<in> (move_rel P w)\<^sup>*}"

lemma move_rel_iff:
  "((p, i), (q, j)) \<in> move_rel P w \<longleftrightarrow>
     j = i \<and> (p, q) \<in> eps_rel P i (length w) \<or> j = Suc i \<and> p < length P \<and> q = Suc p \<and> reads (P ! p) w i"
  by (cases "P ! p") (auto simp: move_rel_def moves_def eps_rel_def eps_def reads_def)

definition read_from :: "inst list \<Rightarrow> uchar list \<Rightarrow> nat \<Rightarrow> nat set \<Rightarrow> nat set" where
  "read_from P w i T = {Suc p | p. p \<in> T \<and> p < length P \<and> reads (P ! p) w i}"

lemma eps_in_move:
  assumes "(p, q) \<in> (eps_rel P i (length w))\<^sup>*"
  shows "((p, i), (q, i)) \<in> (move_rel P w)\<^sup>*"
  using assms
proof (induction rule: rtrancl_induct)
  case (step q r)
  then have "((q, i), (r, i)) \<in> move_rel P w" by (simp add: move_rel_iff)
  with step.IH show ?case by simp
qed simp

lemma reach_0: "reach P w S 0 = (eps_rel P 0 (length w))\<^sup>* `` S"
proof -
  have "snd d = 0 \<longrightarrow> (s, fst d) \<in> (eps_rel P 0 (length w))\<^sup>*" if "((s, 0), d) \<in> (move_rel P w)\<^sup>*" for s d
    using that
  proof (induction rule: rtrancl_induct)
    case (step y z)
    obtain p i q j where yz: "y = (p, i)" "z = (q, j)" by force
    show ?case using step.IH step.hyps(2) unfolding yz move_rel_iff by (auto intro: rtrancl_into_rtrancl)
  qed simp
  then have "reach P w S 0 \<subseteq> (eps_rel P 0 (length w))\<^sup>* `` S" by (fastforce simp: reach_def)
  moreover have "(eps_rel P 0 (length w))\<^sup>* `` S \<subseteq> reach P w S 0" by (auto simp: reach_def intro: eps_in_move)
  ultimately show ?thesis by blast
qed

lemma reach_Suc: "reach P w S (Suc i) = (eps_rel P (Suc i) (length w))\<^sup>* `` read_from P w i (reach P w S i)"
proof -
  have "snd d = Suc i \<longrightarrow> fst d \<in> (eps_rel P (Suc i) (length w))\<^sup>* `` read_from P w i (reach P w S i)"
    if s: "s \<in> S" "((s, 0), d) \<in> (move_rel P w)\<^sup>*" for s d
    using s(2)
  proof (induction rule: rtrancl_induct)
    case (step y z)
    obtain p k q j where yz: "y = (p, k)" "z = (q, j)" by force
    consider "j = k" "(p, q) \<in> eps_rel P k (length w)" | "j = Suc k" "p < length P" "q = Suc p" "reads (P ! p) w k"
      using step.hyps(2) by (auto simp: yz move_rel_iff)
    then show ?case
    proof cases
      case 1
      then show ?thesis using step.IH by (auto simp: yz intro: rtrancl_into_rtrancl)
    next
      case 2
      then have "p \<in> reach P w S k" using step.hyps(1) s(1) by (auto simp: reach_def yz)
      then show ?thesis using 2 by (auto simp: yz read_from_def)
    qed
  qed simp
  then have "reach P w S (Suc i) \<subseteq> (eps_rel P (Suc i) (length w))\<^sup>* `` read_from P w i (reach P w S i)"
    by (fastforce simp: reach_def)
  moreover have "q \<in> reach P w S (Suc i)" if q: "q \<in> (eps_rel P (Suc i) (length w))\<^sup>* `` read_from P w i (reach P w S i)" for q
  proof -
    obtain p s where p: "s \<in> S" "((s, 0), (p, i)) \<in> (move_rel P w)\<^sup>*" "p < length P" "reads (P ! p) w i"
      "(Suc p, q) \<in> (eps_rel P (Suc i) (length w))\<^sup>*"
      using q by (auto simp: read_from_def reach_def)
    have "((p, i), (Suc p, Suc i)) \<in> move_rel P w" using p by (simp add: move_rel_iff)
    then have "((s, 0), (q, Suc i)) \<in> (move_rel P w)\<^sup>*" using p(2) eps_in_move [OF p(5)] by (meson rtrancl.rtrancl_into_rtrancl rtrancl_trans)
    then show ?thesis using p(1) by (auto simp: reach_def)
  qed
  ultimately show ?thesis by blast
qed

lemma reach_in_range: "targets_ok P \<Longrightarrow> S \<subseteq> {..<length P} \<Longrightarrow> reach P w S i \<subseteq> {..<length P}"
proof -
  assume ok: "targets_ok P" and S: "S \<subseteq> {..<length P}"
  have "fst d < length P" if s: "s \<in> S" "((s, 0), d) \<in> (move_rel P w)\<^sup>*" for s d
    using s(2)
  proof (induction rule: rtrancl_induct)
    case (step y z)
    obtain p k q j where yz: "y = (p, k)" "z = (q, j)" by force
    show ?case
      using step.hyps(2) eps_in_range [OF ok, of p q] reads_in_range [OF ok, of p w k]
      by (auto simp: yz move_rel_iff eps_rel_def)
  qed (use s S in auto)
  then show ?thesis by (force simp: reach_def)
qed

section \<open>One pattern\<close>

text \<open>A list of threads and its marks stand for a closed set of reachable addresses.\<close>

definition stands_for :: "inst list \<Rightarrow> nat \<Rightarrow> nat list \<Rightarrow> nat list \<Rightarrow> nat set \<Rightarrow> bool" where
  "stands_for P gen lst seen T \<longleftrightarrow>
     length seen = length P \<and> marked seen gen = T \<and> set lst = {p \<in> T. waits (P ! p)} \<and> distinct lst
     \<and> (\<forall>pc < length P. seen ! pc \<le> gen)"

lemma add_thread_extends:
  assumes "targets_ok P" and "stands_for P gen lst seen T" and "eps_rel P pos n `` T \<subseteq> T" and "pc < length P"
  shows "\<exists>lst' seen'. add_thread P gen pos n [pc] lst seen = Some (lst', seen')
    \<and> stands_for P gen lst' seen' (T \<union> (eps_rel P pos n)\<^sup>* `` {pc})
    \<and> eps_rel P pos n `` (T \<union> (eps_rel P pos n)\<^sup>* `` {pc}) \<subseteq> T \<union> (eps_rel P pos n)\<^sup>* `` {pc}"
proof -
  note sf = assms(2) [unfolded stands_for_def]
  obtain lst' seen' where r: "add_thread P gen pos n [pc] lst seen = Some (lst', seen')"
    "explored P gen pos n [pc] lst seen lst' seen'"
    using add_thread_explores [OF assms(1), of seen "[pc]" gen pos n lst] sf assms(4) by auto
  have "eps_rel P pos n `` marked seen gen \<subseteq> marked seen gen" using assms(3) sf by simp
  note c = explored_closure [OF r(2) this]
  have "stands_for P gen lst' seen' (marked seen' gen)"
    using r(2) sf unfolding stands_for_def explored_def Let_def by auto
  then show ?thesis using r(1) c sf by auto
qed

lemma stands_for_fresh:
  assumes "stands_for P gen lst seen T"
  shows "stands_for P (Suc gen) [] seen {}"
proof -
  have "seen ! pc \<noteq> Suc gen \<and> seen ! pc \<le> Suc gen" if "pc < length P" for pc
    using assms that by (auto simp: stands_for_def dest!: spec [of _ pc])
  then show ?thesis using assms by (auto simp: stands_for_def marked_def)
qed

text \<open>One round over the threads of a position.\<close>

lemma run_threads_round:
  assumes "targets_ok P" and "set pcs \<subseteq> {..<length P}" and "stands_for P gen nlist seen T"
    and "eps_rel P (Suc pos) (length w) `` T \<subseteq> T"
  shows "if \<exists>pc \<in> set pcs. P ! pc = IMatch then run_threads P w pos gen pcs nlist seen = Some None
    else \<exists>nlist' seen'. run_threads P w pos gen pcs nlist seen = Some (Some (nlist', seen'))
      \<and> stands_for P gen nlist' seen' (T \<union> (eps_rel P (Suc pos) (length w))\<^sup>* `` read_from P w pos (set pcs))"
  using assms(2-4)
proof (induction pcs arbitrary: nlist seen T)
  case Nil
  then show ?case by (auto simp: read_from_def)
next
  case (Cons pc pcs)
  let ?E = "eps_rel P (Suc pos) (length w)"
  have pc: "pc < length P" using Cons.prems(1) by simp
  show ?case
  proof (cases "reads (P ! pc) w pos")
    case True
    then have "pc + 1 < length P" using reads_in_range [OF assms(1) pc] by simp
    then obtain l' s' where r: "add_thread P gen (Suc pos) (length w) [pc + 1] nlist seen = Some (l', s')"
      "stands_for P gen l' s' (T \<union> ?E\<^sup>* `` {pc + 1})" "?E `` (T \<union> ?E\<^sup>* `` {pc + 1}) \<subseteq> T \<union> ?E\<^sup>* `` {pc + 1}"
      using add_thread_extends [OF assms(1) Cons.prems(2,3)] by metis
    have "P ! pc \<noteq> IMatch" using True by (auto simp: reads_def)
    moreover have "T \<union> ?E\<^sup>* `` read_from P w pos (set (pc # pcs))
        = T \<union> ?E\<^sup>* `` {pc + 1} \<union> ?E\<^sup>* `` read_from P w pos (set pcs)"
      using True pc by (auto simp: read_from_def)
    ultimately show ?thesis using Cons.IH [OF _ r(2,3)] Cons.prems(1) r(1) True pc by auto
  next
    case False
    then have "read_from P w pos (set (pc # pcs)) = read_from P w pos (set pcs)" by (auto simp: read_from_def)
    then show ?thesis using Cons.IH [OF _ Cons.prems(2,3)] Cons.prems(1) False pc by (auto split: if_splits)
  qed
qed

definition accepting :: "inst list \<Rightarrow> inst \<Rightarrow> nat set \<Rightarrow> bool" where
  "accepting P I T \<longleftrightarrow> (\<exists>pc \<in> T. P ! pc = I)"

lemma waiting_reads: "reads (P ! p) w i \<Longrightarrow> waits (P ! p)"
  by (auto simp: reads_def waits_def split: inst.splits)

lemma waiting_sets:
  assumes "stands_for P gen clist seen T"
  shows "read_from P w pos (set clist) = read_from P w pos T"
    "(\<exists>pc \<in> set clist. P ! pc = IMatch) = accepting P IMatch T"
  using assms waiting_reads by (auto simp: stands_for_def read_from_def accepting_def waits_def)

lemma reach_closed: "eps_rel P (Suc i) (length w) `` {} \<subseteq> {}"
  by simp

lemma scan_round:
  assumes "targets_ok P" and "S \<subseteq> {..<length P}" and "stands_for P gen clist seen (reach P w S pos)"
  shows "if accepting P IMatch (reach P w S pos) then run_threads P w pos (Suc gen) clist [] seen = Some None
    else \<exists>nlist seen'. run_threads P w pos (Suc gen) clist [] seen = Some (Some (nlist, seen'))
      \<and> stands_for P (Suc gen) nlist seen' (reach P w S (Suc pos))"
proof -
  have "set clist \<subseteq> {..<length P}"
    using reach_in_range [OF assms(1,2), of w pos] assms(3) by (auto simp: stands_for_def)
  from run_threads_round [OF assms(1) this stands_for_fresh [OF assms(3)] reach_closed] show ?thesis
    unfolding waiting_sets [OF assms(3)] reach_Suc Un_empty_left by simp
qed

lemma scan_text_spec:
  assumes "targets_ok P" and "S \<subseteq> {..<length P}" and "stands_for P gen clist seen (reach P w S pos)"
    and "pos + k = length w" and "gen + k + 1 < 2 ^ 32"
  shows "scan_text P w k pos gen clist seen = Some (\<exists>i \<in> {pos..length w}. accepting P IMatch (reach P w S i))"
  using assms(3-5)
proof (induction k arbitrary: pos gen clist seen)
  case 0
  then have gen: "next_gen gen = Suc gen" and pos: "{pos..length w} = {pos}" using next_gen_small by simp_all
  show ?case
    using scan_round [OF assms(1,2) 0(1)]
    by (subst scan_text.simps, cases "accepting P IMatch (reach P w S pos)") (auto simp: Let_def gen pos)
next
  case (Suc k)
  have gen: "next_gen gen = Suc gen" using next_gen_small Suc.prems(3) by simp
  have pos: "{pos..length w} = insert pos {Suc pos..length w}" using Suc.prems(2) by auto
  show ?case
  proof (cases "accepting P IMatch (reach P w S pos)")
    case True
    then show ?thesis
      using scan_round [OF assms(1,2) Suc.prems(1)] by (subst scan_text.simps) (simp add: Let_def gen pos)
  next
    case False
    then obtain nlist seen' where r: "run_threads P w pos (Suc gen) clist [] seen = Some (Some (nlist, seen'))"
      "stands_for P (Suc gen) nlist seen' (reach P w S (Suc pos))"
      using scan_round [OF assms(1,2) Suc.prems(1)] by auto
    have "scan_text P w k (Suc pos) (Suc gen) nlist seen' = Some (\<exists>i \<in> {Suc pos..length w}. accepting P IMatch (reach P w S i))"
      using Suc.IH [OF r(2)] Suc.prems(2,3) by simp
    then show ?thesis using r(1) False by (subst scan_text.simps) (simp add: Let_def gen pos)
  qed
qed

lemma stands_for_start: "stands_for P 1 [] (replicate (length P) 0) {}"
  by (auto simp: stands_for_def marked_def)

lemma is_match_reaches:
  assumes "targets_ok P" and "P \<noteq> []" and "length (utf8_chars txt) + 2 < 2 ^ 32"
  shows "is_match P txt
    = Some (\<exists>i \<le> length (utf8_chars txt). accepting P IMatch (reach P (utf8_chars txt) {0} i))"
proof -
  let ?w = "utf8_chars txt"
  obtain clist seen where r: "add_thread P 1 0 (length ?w) [0] [] (replicate (length P) 0) = Some (clist, seen)"
    "stands_for P 1 clist seen (reach P ?w {0} 0)"
    using add_thread_extends [OF assms(1) stands_for_start, of 0 "length ?w" 0] assms(2) by (auto simp: reach_0)
  have "scan_text P ?w (length ?w) 0 1 clist seen = Some (\<exists>i \<in> {0..length ?w}. accepting P IMatch (reach P ?w {0} i))"
    using scan_text_spec [OF assms(1) _ r(2)] assms(2,3) by simp
  then show ?thesis using r(1) by (simp add: is_match_def Let_def Bex_def)
qed

section \<open>Compiled programs\<close>

fun targets_from :: "nat \<Rightarrow> nat \<Rightarrow> inst list \<Rightarrow> bool" where
  "targets_from len l [] = True"
| "targets_from len l (I # c) = (target_ok len l I \<and> targets_from len (Suc l) c)"

lemma targets_from_append:
  "targets_from len l (c @ d) = (targets_from len l c \<and> targets_from len (l + length c) d)"
  by (induction c arbitrary: l) auto

lemma target_ok_mono: "target_ok len l I \<Longrightarrow> len \<le> len' \<Longrightarrow> target_ok len' l I"
  by (cases I) (auto simp: target_ok_def)

lemma targets_from_mono: "targets_from len l c \<Longrightarrow> len \<le> len' \<Longrightarrow> targets_from len' l c"
  by (induction c arbitrary: l) (auto intro: target_ok_mono)

lemma targets_from_nth: "targets_from len l c \<Longrightarrow> t < length c \<Longrightarrow> target_ok len (l + t) (c ! t)"
proof (induction c arbitrary: l t)
  case (Cons I c)
  then show ?case by (cases t) (auto dest: Cons.IH [of "Suc l"])
qed simp

text \<open>A fragment leads at most to the address behind it, and does not accept.\<close>

definition frag_ok :: "fragment \<Rightarrow> bool" where
  "frag_ok f \<longleftrightarrow> (\<forall>l. targets_from (Suc (l + length (f l))) l (f l) \<and> IMatch \<notin> set (f l) \<and> (\<forall>k. IMatchN k \<notin> set (f l)))"

lemma frag_okD:
  assumes "frag_ok f"
  shows "Suc (l + length (f l)) \<le> len \<Longrightarrow> targets_from len l (f l)" "IMatch \<notin> set (f l)" "IMatchN k \<notin> set (f l)"
  using assms targets_from_mono [of "Suc (l + length (f l))"] by (auto simp: frag_ok_def)

lemma frag_ok_seq: "list_all frag_ok fs \<Longrightarrow> frag_ok (seq_code fs)"
proof (induction fs)
  case (Cons f fs)
  then have f: "frag_ok f" and fs: "frag_ok (seq_code fs)" by auto
  show ?case unfolding frag_ok_def
    by (auto simp: targets_from_append frag_okD [OF f] frag_okD [OF fs])
qed (simp add: frag_ok_def)

lemma frag_ok_alt: "list_all frag_ok fs \<Longrightarrow> frag_ok (alt_code fs)"
proof (induction fs rule: induct_list012)
  case (3 f g fs)
  then have f: "frag_ok f" and r: "frag_ok (alt_code (g # fs))" by auto
  show ?case unfolding frag_ok_def
    by (auto simp: Let_def targets_from_append frag_okD [OF f] frag_okD [OF r] target_ok_def)
qed (auto simp: frag_ok_def)

lemma frag_ok_loops:
  assumes "frag_ok f"
  shows "frag_ok (star_code f)" "frag_ok (plus_code f)" "frag_ok (quest_code f)"
  unfolding frag_ok_def
  by (auto simp: star_code_def plus_code_def quest_code_def Let_def targets_from_append frag_okD [OF assms] target_ok_def)

lemma frag_ok_code: "frag_ok (code a)"
proof (induction a)
  case (AConcat v)
  then show ?case by (simp add: frag_ok_seq list_all_iff)
next
  case (AAlt v)
  then show ?case by (simp add: frag_ok_alt list_all_iff)
next
  case (ARepeat a lo hi)
  then show ?case by (cases hi) (auto intro!: frag_ok_seq simp: list_all_iff frag_ok_loops)
qed (simp_all add: frag_ok_loops, simp_all add: frag_ok_def target_ok_def)

lemma targets_ok_program: "targets_ok (code a 0 @ [IMatch])"
proof -
  have "targets_from (length (code a 0 @ [IMatch])) 0 (code a 0 @ [IMatch])"
    by (simp add: targets_from_append frag_okD [OF frag_ok_code] target_ok_def)
  then show ?thesis unfolding targets_ok_def using targets_from_nth by fastforce
qed

lemma path_is_moves:
  assumes "length P = Suc h" and "P ! h = IMatch" and "p \<le> h"
  shows "((p, i), (h, j)) \<in> (move_rel P w)\<^sup>* \<longleftrightarrow> (\<exists>k. path P w 0 h k (p, i) (h, j))"
proof
  have stuck: "moves P w (q, x) = {}" if "h \<le> q" for q x using assms(1,2) that by (cases "q = h") (auto simp: moves_def reads_def)
  have "fst c \<le> h \<longrightarrow> (\<exists>k. path P w 0 h k c (h, j))" if "(c, (h, j)) \<in> (move_rel P w)\<^sup>*" for c
    using that
  proof (induction rule: converse_rtrancl_induct)
    case base
    have "path P w 0 h 0 (h, j) (h, j)" by simp
    then show ?case by blast
  next
    case (step c d)
    have c: "fst c < h" using step.hyps(1) stuck [of "fst c" "snd c"] by (auto simp: move_rel_def not_le [symmetric])
    have "fst d \<le> h"
    proof (rule ccontr)
      assume "\<not> fst d \<le> h"
      then have "moves P w d = {}" using stuck [of "fst d" "snd d"] by simp
      then have "d = (h, j)" using step.hyps(2) by (auto simp: move_rel_def elim: converse_rtranclE)
      then show False using \<open>\<not> fst d \<le> h\<close> by simp
    qed
    then obtain k where "path P w 0 h k d (h, j)" using step.IH by blast
    then have "path P w 0 h (Suc k) c (h, j)" using c step.hyps(1) by (auto simp: move_rel_def)
    then show ?case by blast
  qed
  then show "((p, i), (h, j)) \<in> (move_rel P w)\<^sup>* \<Longrightarrow> \<exists>k. path P w 0 h k (p, i) (h, j)" using assms(3) by fastforce
next
  have "(c, (h, j)) \<in> (move_rel P w)\<^sup>*" if "path P w 0 h k c (h, j)" for k c
    using that by (induction k arbitrary: c) (auto simp: move_rel_def intro: converse_rtrancl_into_rtrancl)
  then show "\<exists>k. path P w 0 h k (p, i) (h, j) \<Longrightarrow> ((p, i), (h, j)) \<in> (move_rel P w)\<^sup>*" by blast
qed

lemma accepting_program:
  assumes "wf_ast a"
  shows "accepting (code a 0 @ [IMatch]) IMatch (reach (code a 0 @ [IMatch]) w {0} j) \<longleftrightarrow> (0, j) \<in> sem w a"
proof -
  let ?P = "code a 0 @ [IMatch]" and ?h = "length (code a 0)"
  have "placed ?P 0 (code a 0)" by (auto simp: placed_def)
  then have run: "run ?P w 0 ?h = sem w a" using implementsD(2) [OF code_implements [OF assms]] by fastforce
  have range: "reach ?P w {0} j \<subseteq> {..<length ?P}" by (rule reach_in_range [OF targets_ok_program]) simp
  have "pc = ?h" if "?P ! pc = IMatch" "pc \<in> reach ?P w {0} j" for pc
    using that range frag_okD(2) [OF frag_ok_code, of a 0] by (auto simp: nth_append split: if_splits dest: nth_mem)
  moreover have "?P ! ?h = IMatch" by simp
  ultimately have "accepting ?P IMatch (reach ?P w {0} j) \<longleftrightarrow> ?h \<in> reach ?P w {0} j"
    unfolding accepting_def by metis
  also have "\<dots> \<longleftrightarrow> (0, j) \<in> run ?P w 0 ?h"
    using path_is_moves [of ?P ?h 0 0 j w] by (simp add: reach_def run_def)
  finally show ?thesis using run by simp
qed

end
