(* ===== verification/RegexParse.thy ===== *)
theory RegexParse
  imports RegexMatch
begin

text \<open>
  The parser of \<open>src/regex.rs\<close> always returns, and what it accepts is a well-formed pattern; with the
  compiler and the matcher this gives the meaning of a compiled expression.
\<close>

section \<open>Moving forward\<close>

text \<open>The parsers return, keep the text, move forward, and build well-formed patterns.\<close>

definition forward :: "parser \<Rightarrow> parser \<Rightarrow> bool" where
  "forward p q \<longleftrightarrow> p_chars q = p_chars p \<and> p_pos p \<le> p_pos q \<and> p_pos q \<le> length (p_chars p)"

definition inside :: "parser \<Rightarrow> bool" where
  "inside p \<longleftrightarrow> p_pos p \<le> length (p_chars p)"

definition left :: "parser \<Rightarrow> nat" where
  "left p = length (p_chars p) - p_pos p"

definition parses :: "parser \<Rightarrow> ('a \<Rightarrow> parser \<Rightarrow> bool) \<Rightarrow> 'a parsed \<Rightarrow> bool" where
  "parses p Q r = (case r of None \<Rightarrow> False | Some (Inl e) \<Rightarrow> True | Some (Inr (a, q)) \<Rightarrow> forward p q \<and> Q a q)"

lemma parsesE:
  assumes "parses p Q r"
  obtains e where "r = Some (Inl e)" | a q where "r = Some (Inr (a, q))" "forward p q" "Q a q"
  using assms by (auto simp: parses_def split: option.splits sum.splits)

lemma parses_simps [simp]:
  "parses p Q (Some (Inl e))" "parses p Q (Some (Inr (a, q))) = (forward p q \<and> Q a q)" "\<not> parses p Q None"
  by (simp_all add: parses_def)

lemma parses_bind:
  assumes "parses p Q r" and "\<And>a q. forward p q \<Longrightarrow> Q a q \<Longrightarrow> r = Some (Inr (a, q)) \<Longrightarrow> parses p R (f a q)"
  shows "parses p R (bindp r f)"
  using assms(1) by (rule parsesE) (use assms(2) in auto)

lemma parses_if: "(c \<Longrightarrow> parses p Q r) \<Longrightarrow> (\<not> c \<Longrightarrow> parses p Q r') \<Longrightarrow> parses p Q (if c then r else r')"
  by simp

lemma forward_trans [trans]: "forward p q \<Longrightarrow> forward q r \<Longrightarrow> forward p r"
  by (auto simp: forward_def)

lemma parses_from: "forward p q \<Longrightarrow> parses q Q r \<Longrightarrow> parses p Q r"
  by (auto simp: parses_def split: option.splits sum.splits intro: forward_trans)

lemma forward_inside: "forward p q \<Longrightarrow> inside q" "forward p q \<Longrightarrow> left q \<le> left p"
  by (auto simp: forward_def inside_def left_def)

lemma forward_refl: "inside p \<Longrightarrow> forward p p"
  by (simp add: forward_def inside_def)

lemma peek_Some: "peek p = Some c \<Longrightarrow> forward p (skip p) \<and> left (skip p) < left p"
  by (auto simp: peek_def at_def skip_def forward_def left_def split: if_splits)

lemma eat_forward: "inside p \<Longrightarrow> forward p (snd (eat c p))"
  by (simp add: eat_def forward_refl peek_Some)

lemma eat_True: "eat c p = (True, q) \<Longrightarrow> forward p q \<and> left q < left p"
  by (auto simp: eat_def peek_Some split: if_splits)

lemma eat_False: "eat c p = (False, q) \<Longrightarrow> q = p"
  by (auto simp: eat_def split: if_splits)

lemma bump_forward: "inside p \<Longrightarrow> forward p (snd (bump p))"
  by (auto simp: bump_def forward_refl peek_Some)

lemma bump_Some: "bump p = (Some c, q) \<Longrightarrow> forward p q \<and> left q < left p"
  by (auto simp: bump_def peek_Some)

lemma scan_int_forward: "inside p \<Longrightarrow> forward p (snd (scan_int p))"
  using length_takeWhile_le [of "on_ascii is_ascii_digit" "drop (p_pos p) (p_chars p)"]
  by (auto simp: scan_int_def forward_def inside_def Let_def)

lemma at_1_peek: "peek p = Some c \<Longrightarrow> at 1 p = Some d \<Longrightarrow> peek (skip p) = Some d"
  by (auto simp: peek_def at_def skip_def split: if_splits)

lemma parses_weaken: "parses p Q r \<Longrightarrow> (\<And>a q. Q a q \<Longrightarrow> R a q) \<Longrightarrow> parses p R r"
  by (auto simp: parses_def split: option.splits sum.splits)

section \<open>Members of a class, escapes and bounds\<close>

lemma parse_escape_ok: "inside p \<Longrightarrow> parses p (\<lambda>a q. wf_ast a) (Some (parse_escape p))"
  by (auto simp: parse_escape_def split: prod.split option.split dest: bump_Some)

lemma class_maybe_range_ok: "inside p \<Longrightarrow> parses p (\<lambda>a q. True) (Some (class_maybe_range items lo p))"
proof (cases "peek p = Some ''-'' \<and> (case at 1 p of Some c \<Rightarrow> c \<noteq> '']'' | None \<Rightarrow> False)")
  case True
  let ?p1 = "skip p"
  have p1: "forward p ?p1" "inside ?p1" using True peek_Some forward_inside(1) by blast+
  have hop: "forward ?p1 q" if "bump (skip ?p1) = (Some c, q)" "peek ?p1 = Some d" for c d q
    using that bump_Some peek_Some forward_trans by blast
  have step: "forward ?p1 q" if "bump ?p1 = (Some c, q)" for c q using that bump_Some by blast
  show ?thesis
    using True p1 by (auto simp: class_maybe_range_def Let_def split: prod.split option.split intro: forward_trans hop step)
qed (auto simp: class_maybe_range_def forward_refl)

lemma class_member_ok:
  assumes "inside p" and "peek p = Some c"
  shows "parses p (\<lambda>a q. left q < left p) (Some (class_member items p))"
proof -
  have range: "parses p (\<lambda>a q. left q < left p) (Some (class_maybe_range items lo q))"
    if "forward p q" "left q < left p" for q lo
    using class_maybe_range_ok [OF forward_inside(1) [OF that(1)], of items lo] forward_inside(2) that
    by (auto simp: parses_def split: sum.splits intro: forward_trans dest: forward_inside(2))
  show ?thesis
  proof (cases "c = [CHR 0x5C]")
    case True
    have "forward p q \<and> left q < left p" if "bump (skip p) = (Some d, q)" for d q
      using that bump_Some peek_Some [OF assms(2)] forward_trans by fastforce
    then show ?thesis
      using assms True by (auto simp: class_member_def split: prod.split option.split intro!: range)
  next
    case False
    then show ?thesis
      using assms bump_Some by (auto simp: class_member_def split: prod.split option.split intro!: range)
  qed
qed

lemma class_loop_ok: "inside p \<Longrightarrow> left p < k \<Longrightarrow> parses p (\<lambda>a q. wf_ast a) (class_loop k first negated items p)"
proof (induction k arbitrary: p first items)
  case (Suc k)
  show ?case
  proof (cases "peek p")
    case (Some c)
    have "parses p (\<lambda>a q. wf_ast a) (bindp (Some (class_member items p)) (class_loop k False negated))"
    proof (rule parses_bind [OF class_member_ok [OF Suc.prems(1) Some]])
      fix a q
      assume "forward p q" "left q < left p"
      then show "parses p (\<lambda>a q. wf_ast a) (class_loop k False negated a q)"
        using Suc.IH [of q] Suc.prems(2) by (intro parses_from [of p q]) (auto dest: forward_inside(1))
    qed
    then show ?thesis using Some peek_Some by simp
  qed simp
qed simp

lemma parse_class_ok:
  assumes "inside p" and "left p < k"
  shows "parses p (\<lambda>a q. wf_ast a) (parse_class k p)"
proof -
  obtain b q where q: "eat ''^'' p = (b, q)" by force
  then have "forward p q" using eat_forward [OF assms(1), of "''^''"] by simp
  with forward_inside [OF this] show ?thesis
    using assms(2) parses_from [OF _ class_loop_ok] by (simp add: parse_class_def q)
qed

lemma skip_flags_ok: "inside p \<Longrightarrow> left p < k \<Longrightarrow> \<exists>q. skip_flags k p = Some q \<and> forward p q"
proof (induction k arbitrary: p)
  case (Suc k)
  show ?case
  proof (cases "peek p")
    case (Some c)
    note s = peek_Some [OF Some]
    then have "\<exists>q. skip_flags k (skip p) = Some q \<and> forward (skip p) q"
      using Suc.IH [of "skip p"] Suc.prems(2) by (auto dest: forward_inside(1))
    then show ?thesis using Some s by (auto intro: forward_trans)
  qed (simp add: forward_refl Suc.prems)
qed simp

lemma read_bound_forward:
  assumes "peek p = Some c" and "read_bound p = Some (b, q)"
  shows "forward p q"
proof -
  obtain mn p1 where s1: "scan_int (skip p) = (mn, p1)" by force
  have p0: "forward p (skip p)" using peek_Some [OF assms(1)] by blast
  have "forward (skip p) p1" using scan_int_forward [OF forward_inside(1) [OF p0]] s1 by simp
  then have p1: "forward p p1" by (rule forward_trans [OF p0])
  obtain mx p2 where s2: "scan_int (skip p1) = (mx, p2)" by force
  obtain ok p3 where s3: "eat ''}'' p2 = (ok, p3)" by force
  have fw: "forward p (skip p1) \<and> forward p p3" if "peek p1 = Some d" for d
  proof -
    have a: "forward p1 (skip p1)" using peek_Some [OF that] by blast
    have b: "forward (skip p1) p2" using scan_int_forward [OF forward_inside(1) [OF a]] s2 by simp
    have "forward p2 p3" using eat_forward [OF forward_inside(1) [OF b], of "''}''"] s3 by simp
    then show ?thesis using forward_trans [OF p1 a] forward_trans [OF b] forward_trans by blast
  qed
  show ?thesis
    using assms(2) fw unfolding read_bound_def s1 s2 s3 prod.case by (auto simp: s2 s3 split: if_splits)
qed

lemma try_bound_ok:
  assumes "peek p = Some c"
  shows "case try_bound p of Inl e \<Rightarrow> True | Inr (None, q) \<Rightarrow> q = p
    | Inr (Some (lo, hi), q) \<Rightarrow> forward p q \<and> (case hi of None \<Rightarrow> True | Some mx \<Rightarrow> lo \<le> mx)"
  using read_bound_forward [OF assms] by (auto simp: try_bound_def split: option.split prod.split)

section \<open>The recursive parsers\<close>

abbreviation wf_consumed :: "parser \<Rightarrow> ast \<Rightarrow> parser \<Rightarrow> bool" where
  "wf_consumed p a q \<equiv> wf_ast a \<and> (peek p \<noteq> None \<longrightarrow> left q < left p)"

definition fuel_ok :: "nat \<Rightarrow> bool" where
  "fuel_ok k \<longleftrightarrow>
     (\<forall>p. inside p \<longrightarrow> 6 * left p + 6 \<le> k \<longrightarrow> parses p (\<lambda>a q. wf_ast a) (parse_alt k p))
     \<and> (\<forall>p alts. inside p \<longrightarrow> 6 * left p + 5 \<le> k \<longrightarrow> alts \<noteq> [] \<longrightarrow> list_all wf_ast alts
          \<longrightarrow> parses p (\<lambda>a q. wf_ast a) (alt_rest k alts p))
     \<and> (\<forall>p items. inside p \<longrightarrow> 6 * left p + 3 \<le> k \<longrightarrow> list_all wf_ast items
          \<longrightarrow> parses p (\<lambda>a q. wf_ast a) (parse_concat k items p))
     \<and> (\<forall>p. inside p \<longrightarrow> 6 * left p + 2 \<le> k \<longrightarrow> parses p (wf_consumed p) (parse_repeat k p))
     \<and> (\<forall>p. inside p \<longrightarrow> 6 * left p + 1 \<le> k \<longrightarrow> parses p (wf_consumed p) (parse_atom k p))"

lemma fuel_okD:
  assumes "fuel_ok k" and "inside p"
  shows "6 * left p + 6 \<le> k \<Longrightarrow> parses p (\<lambda>a q. wf_ast a) (parse_alt k p)"
    "6 * left p + 5 \<le> k \<Longrightarrow> alts \<noteq> [] \<Longrightarrow> list_all wf_ast alts \<Longrightarrow> parses p (\<lambda>a q. wf_ast a) (alt_rest k alts p)"
    "6 * left p + 3 \<le> k \<Longrightarrow> list_all wf_ast items \<Longrightarrow> parses p (\<lambda>a q. wf_ast a) (parse_concat k items p)"
    "6 * left p + 2 \<le> k \<Longrightarrow> parses p (wf_consumed p) (parse_repeat k p)"
    "6 * left p + 1 \<le> k \<Longrightarrow> parses p (wf_consumed p) (parse_atom k p)"
  using assms unfolding fuel_ok_def by blast+

lemma parse_alt_ok:
  assumes "fuel_ok k" and "inside p" and "6 * left p + 6 \<le> Suc k"
  shows "parses p (\<lambda>a q. wf_ast a) (parse_alt (Suc k) p)"
  unfolding parse_alt.simps
proof (rule parses_bind [OF fuel_okD(3) [OF assms(1,2)]])
  fix a q
  assume "forward p q" "wf_ast a"
  then show "parses p (\<lambda>a q. wf_ast a) (alt_rest k [a] q)"
    using assms(3) forward_inside [of p q] by (intro parses_from [OF _ fuel_okD(2) [OF assms(1)]]) auto
qed (use assms(3) in auto)

lemma alt_rest_ok:
  assumes "fuel_ok k" and "inside p" and "6 * left p + 5 \<le> Suc k" and "alts \<noteq> []" and "list_all wf_ast alts"
  shows "parses p (\<lambda>a q. wf_ast a) (alt_rest (Suc k) alts p)"
proof -
  obtain again p1 where e: "eat ''|'' p = (again, p1)" by force
  show ?thesis
  proof (cases again)
    case True
    then have p1: "forward p p1" "left p1 < left p" using eat_True [of "''|''" p p1] e by simp_all
    have "parses p1 (\<lambda>a q. wf_ast a) (bindp (parse_concat k [] p1) (\<lambda>a. alt_rest k (alts @ [a])))"
    proof (rule parses_bind [OF fuel_okD(3) [OF assms(1) forward_inside(1) [OF p1(1)]]])
      fix a q
      assume "forward p1 q" "wf_ast a"
      then show "parses p1 (\<lambda>a q. wf_ast a) (alt_rest k (alts @ [a]) q)"
        using assms p1 forward_inside [of p1 q] by (intro parses_from [OF _ fuel_okD(2) [OF assms(1)]]) auto
    qed (use assms(3) p1(2) in auto)
    then show ?thesis using e True p1(1) parses_from by simp
  next
    case False
    have "wf_ast (if length alts = 1 then hd alts else AAlt alts)"
      using assms(4,5) by (cases alts) auto
    then show ?thesis using e False eat_False [of "''|''" p p1] forward_refl [OF assms(2)] by simp
  qed
qed

lemma parse_concat_ok:
  assumes "fuel_ok k" and "inside p" and "6 * left p + 3 \<le> Suc k" and "list_all wf_ast items"
  shows "parses p (\<lambda>a q. wf_ast a) (parse_concat (Suc k) items p)"
proof (cases "case peek p of Some c \<Rightarrow> c \<noteq> ''|'' \<and> c \<noteq> '')'' | None \<Rightarrow> False")
  case True
  have "parses p (\<lambda>a q. wf_ast a) (bindp (parse_repeat k p) (\<lambda>a. parse_concat k (items @ [a])))"
  proof (rule parses_bind [OF fuel_okD(4) [OF assms(1,2)]])
    fix a q
    assume "forward p q" "wf_consumed p a q"
    then show "parses p (\<lambda>a q. wf_ast a) (parse_concat k (items @ [a]) q)"
      using assms True forward_inside(1) [of p q]
      by (intro parses_from [OF _ fuel_okD(3) [OF assms(1)]]) (auto split: option.splits)
  qed (use assms(3) in auto)
  then show ?thesis using True by simp
next
  case False
  have "wf_ast (case items of [] \<Rightarrow> AEmpty | [a] \<Rightarrow> a | _ \<Rightarrow> AConcat items)"
    using assms(4) by (auto split: list.split)
  then show ?thesis using False forward_refl [OF assms(2)] by simp
qed

lemma parse_repeat_ok:
  assumes "fuel_ok k" and "inside p" and "6 * left p + 2 \<le> Suc k"
  shows "parses p (wf_consumed p) (parse_repeat (Suc k) p)"
  unfolding parse_repeat.simps
proof (rule parses_bind [OF fuel_okD(5) [OF assms(1,2)]])
  fix a p1
  let ?fin = "\<lambda>node p2. Some (Inr (node, snd (eat ''?'' p2)))"
  assume p1: "forward p p1" "wf_consumed p a p1"
  have fin: "parses p (wf_consumed p) (?fin node q)" if "forward p1 q" "wf_ast node" for node q
  proof -
    have "forward q (snd (eat ''?'' q))" using eat_forward forward_inside(1) [OF that(1)] by blast
    then have f: "forward p1 (snd (eat ''?'' q))" using that(1) forward_trans by blast
    then show ?thesis using p1 forward_trans forward_inside(2) [OF f] that(2) by fastforce
  qed
  have skips: "forward p1 (skip p1)" if "peek p1 = Some c" for c using peek_Some that by blast
  have same: "parses p (wf_consumed p) (Some (Inr (a, p1)))" using p1 by simp
  show "parses p (wf_consumed p)
      (let done' = ?fin in
       if peek p1 = Some ''*'' then done' (AStar a) (skip p1)
       else if peek p1 = Some ''+'' then done' (APlus a) (skip p1)
       else if peek p1 = Some ''?'' then done' (AQuest a) (skip p1)
       else if peek p1 = Some ''{'' then
         (case try_bound p1 of
            Inl e \<Rightarrow> Some (Inl e)
          | Inr (Some (lo, hi), p2) \<Rightarrow> done' (ARepeat a lo hi) p2
          | Inr (None, p2) \<Rightarrow> Some (Inr (a, p2)))
       else Some (Inr (a, p1)))"
  proof (cases "peek p1 = Some ''{''")
    case True
    show ?thesis
    proof (cases "try_bound p1")
      case (Inr bq)
      obtain b q where bq: "bq = (b, q)" by force
      show ?thesis
        using True Inr try_bound_ok [OF True] fin same p1(2)
        by (cases b) (auto simp: Let_def bq simp del: parses_simps(2))
    qed (use True in \<open>simp add: Let_def\<close>)
  next
    case False
    have "wf_ast (AStar a)" "wf_ast (APlus a)" "wf_ast (AQuest a)" using p1(2) by auto
    then show ?thesis using False fin [OF skips] same by (auto simp: Let_def simp del: parses_simps(2))
  qed
qed (use assms(3) in auto)

lemma parse_atom_ok:
  assumes "fuel_ok k" and "inside p" and "6 * left p + 1 \<le> Suc k"
  shows "parses p (wf_consumed p) (parse_atom (Suc k) p)"
proof -
  let ?p0 = "p\<lparr>p_depth := p_depth p + 1\<rparr>" and ?leave = "\<lambda>a q. Some (Inr (a, q\<lparr>p_depth := p_depth q - 1\<rparr>))"
  have depth: "forward p (q\<lparr>p_depth := d\<rparr>) = forward p q" "left (q\<lparr>p_depth := d\<rparr>) = left q" for q d
    by (simp_all add: forward_def left_def)
  have p0: "peek ?p0 = peek p" "forward ?p0 q = forward p q" "left ?p0 = left p" "inside ?p0" for q
    using assms(2) by (simp_all add: peek_def at_def forward_def left_def inside_def)
  obtain c p1 where b: "bump ?p0 = (c, p1)" by force
  show ?thesis
  proof (cases c)
    case None
    then have "p1 = ?p0" "peek p = None" using b p0(1) by (auto simp: bump_def split: if_splits)
    then show ?thesis using b None forward_refl [OF assms(2)] by (simp add: Let_def depth)
  next
    case (Some ch)
    then have p1: "forward p p1" "left p1 < left p" using b bump_Some p0 by fastforce+
    note in1 = forward_inside(1) [OF p1(1)]
    have leave: "parses p (wf_consumed p) (?leave a q)" if "forward p1 q" "wf_ast a" for a q
      using that p1 forward_trans [OF p1(1) that(1)] forward_inside(2) [OF that(1)] by (simp add: depth)
    have bind: "parses p (wf_consumed p) (bindp r ?leave)" if "parses p1 (\<lambda>a q. wf_ast a) r" for r
      using that by (rule parsesE) (use leave in auto)
    have group: "parses p (wf_consumed p) (bindp (parse_alt k p2) (\<lambda>a p3.
        case eat '')'' p3 of (shut, p4) \<Rightarrow>
          if shut then ?leave a p4 else Some (Inl (''unmatched '' @ [CHR 0x60] @ ''('' @ [CHR 0x60]))))"
      if p2: "forward p1 p2" for p2
    proof -
      have "parses p2 (\<lambda>a q. wf_ast a) (parse_alt k p2)"
        using fuel_okD(1) [OF assms(1) forward_inside(1) [OF p2]] forward_inside(2) [OF p2] p1(2) assms(3) by simp
      then show ?thesis
      proof (rule parsesE)
        fix a q
        assume r: "parse_alt k p2 = Some (Inr (a, q))" "forward p2 q" "wf_ast a"
        obtain shut p4 where e: "eat '')'' q = (shut, p4)" by force
        have "parses p (wf_consumed p) (?leave a p4)" if shut
        proof (rule leave [OF forward_trans [OF p2 forward_trans [OF r(2)]] r(3)])
          show "forward q p4" using eat_True [of "'')''" q p4] e that by simp
        qed
        then show ?thesis by (cases shut) (simp_all only: r(1) bindp.simps e prod.case if_True if_False parses_simps(1))
      qed simp
    qed
    have flags: "\<exists>p2. (if peek p1 = Some ''?'' then skip_flags k (skip p1) else Some p1) = Some p2 \<and> forward p1 p2"
    proof (cases "peek p1 = Some ''?''")
      case True
      note s = peek_Some [OF True]
      then have "\<exists>q. skip_flags k (skip p1) = Some q \<and> forward (skip p1) q"
        using skip_flags_ok [of "skip p1" k] forward_inside(1) p1(2) assms(3) by auto
      then show ?thesis using True s forward_trans by auto
    qed (simp add: forward_refl in1)
    have cls: "parses p (wf_consumed p) (bindp (parse_class k p1) ?leave)"
      using parse_class_ok [OF in1] p1(2) assms(3) by (intro bind) simp
    have esc: "parses p (wf_consumed p) (bindp (Some (parse_escape p1)) ?leave)"
      using parse_escape_ok [OF in1] by (rule bind)
    have one: "parses p (wf_consumed p) (?leave a p1)" if "wf_ast a" for a using leave forward_refl [OF in1] that by blast
    obtain p2 where p2: "(if peek p1 = Some ''?'' then skip_flags k (skip p1) else Some p1) = Some p2" "forward p1 p2"
      using flags by blast
    show ?thesis
      unfolding parse_atom.simps Let_def b Some prod.case option.case p2(1)
      by (intro parses_if group [OF p2(2)] cls esc one parses_simps(1)) simp_all
  qed
qed

lemma fuel_ok_all: "fuel_ok k"
proof (induction k)
  case 0
  then show ?case by (simp add: fuel_ok_def)
next
  case (Suc k)
  then show ?case
    unfolding fuel_ok_def [of "Suc k"]
    by (intro conjI allI impI parse_alt_ok alt_rest_ok parse_concat_ok parse_repeat_ok parse_atom_ok)
qed

lemma parse_pattern_returns: "\<exists>r. parse_pattern pat = Some r \<and> (\<forall>a. r = Inr a \<longrightarrow> wf_ast a)"
proof -
  let ?cs = "utf8_chars pat" and ?p = "\<lparr>p_chars = utf8_chars pat, p_pos = 0, p_depth = 0\<rparr>"
  have "parses ?p (\<lambda>a q. wf_ast a) (parse_alt (parse_fuel ?cs) ?p)"
    by (rule fuel_okD(1) [OF fuel_ok_all]) (simp_all add: inside_def left_def parse_fuel_def)
  then show ?thesis by (rule parsesE) (auto simp: parse_pattern_def Let_def)
qed

end
