(* ===== verification/RegexSet.thy ===== *)
theory RegexSet
  imports RegexParse
begin

text \<open>
  What a compiled expression and a compiled set of expressions of \<open>src/regex.rs\<close> match.  The set runs
  all programs at once; it reports exactly the patterns that match alone.
\<close>

section \<open>Compiled expressions\<close>

lemma sem_search: "(0, i) \<in> sem w (AStar AAny) \<longleftrightarrow> i \<le> length w \<and> (\<forall>k < i. w ! k \<noteq> newline)"
proof
  have "j \<le> i \<and> i \<le> max j (length w) \<and> (\<forall>k. j \<le> k \<and> k < i \<longrightarrow> w ! k \<noteq> newline)" if "(j, i) \<in> sem w (AStar AAny)" for j
    using that[unfolded sem.simps]
  proof (induction rule: converse_rtrancl_induct)
    case (step j k)
    then have "k = Suc j" "j < length w" "w ! j \<noteq> newline" by auto
    then show ?case using step.IH by (auto simp: le_Suc_eq) (metis le_antisym not_less_eq_eq)
  qed auto
  then show "(0, i) \<in> sem w (AStar AAny) \<Longrightarrow> i \<le> length w \<and> (\<forall>k < i. w ! k \<noteq> newline)" by force
next
  assume "i \<le> length w \<and> (\<forall>k < i. w ! k \<noteq> newline)"
  then show "(0, i) \<in> sem w (AStar AAny)"
  proof (induction i)
    case (Suc i)
    then have "(0, i) \<in> (sem w AAny)\<^sup>*" "(i, Suc i) \<in> sem w AAny" by auto
    then show ?case unfolding sem.simps(9) by (rule rtrancl_into_rtrancl)
  qed simp
qed

lemma relpow_bounded: "(\<And>i j. (i, j) \<in> R \<Longrightarrow> i \<le> n \<Longrightarrow> j \<le> n) \<Longrightarrow> (i, j) \<in> R ^^ k \<Longrightarrow> i \<le> n \<Longrightarrow> j \<le> (n :: nat)"
  by (induction k arbitrary: j) auto

lemma sem_bounded: "(i, j) \<in> sem w a \<Longrightarrow> i \<le> length w \<Longrightarrow> j \<le> length w"
proof (induction a arbitrary: i j)
  case (AConcat v)
  have "(i, j) \<in> foldr (O) (map (sem w) u) Id \<Longrightarrow> set u \<subseteq> set v \<Longrightarrow> i \<le> length w \<Longrightarrow> j \<le> length w" for u i j
    by (induction u arbitrary: i) (use AConcat.IH in auto)
  then show ?case using AConcat.prems by auto
next
  case (AStar a)
  then obtain k where "(i, j) \<in> sem w a ^^ k" by (auto dest: rtrancl_imp_relpow)
  then show ?case using relpow_bounded [of "sem w a"] AStar by blast
next
  case (APlus a)
  then obtain k where "(i, j) \<in> sem w a ^^ k" by (auto simp: trancl_power)
  then show ?case using relpow_bounded [of "sem w a"] APlus by blast
next
  case (ARepeat a lo hi)
  then obtain k where "(i, j) \<in> sem w a ^^ k" by (auto split: option.splits)
  then show ?case using relpow_bounded [of "sem w a"] ARepeat by blast
qed auto

text \<open>A pattern is found in a text: some match starts where only characters that \<open>.\<close> matches precede.\<close>

definition found_in :: "ast \<Rightarrow> uchar list \<Rightarrow> bool" where
  "found_in a w \<longleftrightarrow> (\<exists>i j. i \<le> length w \<and> (\<forall>k < i. w ! k \<noteq> newline) \<and> (i, j) \<in> sem w a)"

lemma regex_new_cases:
  assumes "regex_new pat = Some (Inr prog)"
  obtains a where "parse_pattern pat = Some (Inr a)" "wf_ast a" "prog = code (AConcat [AStar AAny, a]) 0 @ [IMatch]"
    "length prog \<le> MAX_PROG + 1"
proof -
  obtain a where a: "parse_pattern pat = Some (Inr a)" "\<exists>p. compile a [ISplit 1 3, IAny, IJmp 0] = Inr p \<and> prog = p @ [IMatch]"
    using assms by (auto simp: regex_new_def split: option.splits sum.splits)
  have "wf_ast a" using parse_pattern_returns [of pat] a(1) by auto
  moreover have "prog = code (AConcat [AStar AAny, a]) 0 @ [IMatch]" "length prog \<le> MAX_PROG + 1"
    using a(2) by (auto simp: compile_exact star_code_def numeral_3_eq_3 split: if_splits)
  ultimately show ?thesis using a(1) that by blast
qed

lemma accepting_search:
  assumes "wf_ast a"
  shows "(\<exists>j \<le> length w. accepting (code (AConcat [AStar AAny, a]) 0 @ [IMatch]) IMatch
      (reach (code (AConcat [AStar AAny, a]) 0 @ [IMatch]) w {0} j)) \<longleftrightarrow> found_in a w"
proof -
  have wf: "wf_ast (AConcat [AStar AAny, a])" using assms by simp
  have "(0, j) \<in> sem w (AConcat [AStar AAny, a]) \<longleftrightarrow> (\<exists>i. (0, i) \<in> sem w (AStar AAny) \<and> (i, j) \<in> sem w a)" for j
    by (auto simp del: sem.simps(9) simp: relcomp_unfold)
  then show ?thesis unfolding accepting_program [OF wf] found_in_def sem_search using sem_bounded by blast
qed

lemma is_match_found:
  assumes "wf_ast a" and "prog = code (AConcat [AStar AAny, a]) 0 @ [IMatch]" and "length (utf8_chars txt) + 2 < 2 ^ 32"
  shows "is_match prog txt = Some (found_in a (utf8_chars txt))"
proof -
  have "prog \<noteq> []" using assms(2) by simp
  then show ?thesis
    unfolding accepting_search [OF assms(1), symmetric] assms(2) [symmetric]
    by (intro is_match_reaches assms(3)) (simp only: assms(2) targets_ok_program)
qed

section \<open>Relocated programs\<close>

text \<open>A program placed at an address of a larger one, with its accept replaced by a numbered one.\<close>

definition relocated :: "inst list \<Rightarrow> nat \<Rightarrow> nat \<Rightarrow> inst list \<Rightarrow> bool" where
  "relocated P base id' re \<longleftrightarrow>
     base + length re \<le> length P \<and> (\<forall>p < length re. P ! (base + p) = relocate (re ! p) base id')"

lemma reads_relocate: "reads (relocate I base id') w i = reads I w i"
  by (cases I) (simp_all add: reads_def relocate_def)

lemma relocated_move:
  assumes "relocated P base id' re" and "p < length re"
  shows "((base + p, i), (q', j)) \<in> move_rel P w \<longleftrightarrow> (\<exists>q. q' = base + q \<and> ((p, i), (q, j)) \<in> move_rel re w)"
proof -
  have "base + p < length P" "P ! (base + p) = relocate (re ! p) base id'"
    using assms by (auto simp: relocated_def)
  then show ?thesis
    using assms(2) unfolding move_rel_iff eps_rel_def
    by (cases "re ! p") (auto simp: eps_def reads_def relocate_def add.commute)
qed

lemma relocated_reach:
  assumes "relocated P base id' re" and "targets_ok re" and "re \<noteq> []"
  shows "reach P w {base} j = (+) base ` reach re w {0} j"
proof -
  have range: "reach re w {0} k \<subseteq> {..<length re}" for k using reach_in_range [OF assms(2)] assms(3) by simp
  have "\<exists>q. fst d = base + q \<and> q \<in> reach re w {0} (snd d)" if "((base, 0), d) \<in> (move_rel P w)\<^sup>*" for d
    using that
  proof (induction rule: rtrancl_induct)
    case base
    then show ?case by (auto simp: reach_def)
  next
    case (step y z)
    obtain q k z1 z2 where y: "y = (base + q, k)" "q \<in> reach re w {0} k" and z: "z = (z1, z2)"
      using step.IH by (metis prod.collapse)
    then obtain r where "z1 = base + r" "((q, k), (r, z2)) \<in> move_rel re w"
      using step.hyps(2) relocated_move [OF assms(1), of q] range by blast
    then show ?case using y(2) z by (auto simp: reach_def intro: rtrancl_into_rtrancl)
  qed
  then have "reach P w {base} j \<subseteq> (+) base ` reach re w {0} j" by (fastforce simp: reach_def)
  moreover have "((base, 0), (base + fst d, snd d)) \<in> (move_rel P w)\<^sup>*" if "((0, 0), d) \<in> (move_rel re w)\<^sup>*" for d
    using that
  proof (induction rule: rtrancl_induct)
    case (step y z)
    obtain q k r l where yz: "y = (q, k)" "z = (r, l)" by force
    have "q < length re" using step.hyps(1) range [of k] by (auto simp: reach_def yz)
    then have "((base + q, k), (base + r, l)) \<in> move_rel P w" using relocated_move [OF assms(1)] step.hyps(2) yz by blast
    then show ?case using step.IH by (simp add: yz)
  qed simp
  then have "(+) base ` reach re w {0} j \<subseteq> reach P w {base} j" by (fastforce simp: reach_def)
  ultimately show ?thesis by blast
qed

fun layout :: "inst list list \<Rightarrow> nat \<Rightarrow> nat \<Rightarrow> inst list" where
  "layout [] base i = []"
| "layout (re # res) base i = map (\<lambda>x. relocate x base i) re @ layout res (base + length re) (i + 1)"

fun bases :: "inst list list \<Rightarrow> nat \<Rightarrow> nat list" where
  "bases [] base = []"
| "bases (re # res) base = base # bases res (base + length re)"

lemma set_build_layout:
  "set_build pats i prog starts = Some (Inr (prog', starts')) \<Longrightarrow>
   \<exists>res. list_all2 (\<lambda>pat re. regex_new pat = Some (Inr re)) pats res
     \<and> prog' = prog @ layout res (length prog) i \<and> starts' = starts @ bases res (length prog)"
proof (induction pats arbitrary: i prog starts)
  case (Cons pat pats)
  obtain re where re: "regex_new pat = Some (Inr re)"
    "set_build pats (i + 1) (prog @ map (\<lambda>x. relocate x (length prog) i) re) (starts @ [length prog]) = Some (Inr (prog', starts'))"
    using Cons.prems by (auto simp: Let_def split: option.splits sum.splits if_splits)
  obtain res where "list_all2 (\<lambda>pat re. regex_new pat = Some (Inr re)) pats res"
    "prog' = (prog @ map (\<lambda>x. relocate x (length prog) i) re) @ layout res (length prog + length re) (i + 1)"
    "starts' = (starts @ [length prog]) @ bases res (length prog + length re)"
    using Cons.IH [OF re(2)] by auto
  then show ?case using re(1) by (intro exI [of _ "re # res"]) auto
qed simp

lemma length_bases [simp]: "length (bases res b) = length res"
  by (induction res arbitrary: b) auto

lemma length_layout: "length (layout res b i) = sum_list (map length res)"
  by (induction res arbitrary: b i) auto

lemma layout_relocated:
  assumes "k < length res"
  shows "relocated (A @ layout res (length A) i) (bases res (length A) ! k) (i + k) (res ! k)"
  using assms
proof (induction res arbitrary: A i k)
  case (Cons re res)
  show ?case
  proof (cases k)
    case 0
    then show ?thesis by (auto simp: relocated_def nth_append)
  next
    case (Suc j)
    let ?A = "A @ map (\<lambda>x. relocate x (length A) i) re"
    have "relocated (?A @ layout res (length ?A) (i + 1)) (bases res (length ?A) ! j) (i + 1 + j) (res ! j)"
      using Cons.IH [of j ?A "i + 1"] Cons.prems Suc by simp
    then show ?thesis using Suc by simp
  qed
qed simp

text \<open>Every address of the combined program belongs to one of the programs.\<close>

lemma layout_cover:
  assumes "pc < length (layout res b i)"
  shows "\<exists>k p. k < length res \<and> p < length (res ! k) \<and> b + pc = bases res b ! k + p"
  using assms
proof (induction res arbitrary: b i pc)
  case (Cons re res)
  show ?case
  proof (cases "pc < length re")
    case True
    then show ?thesis by (intro exI [of _ 0] exI [of _ pc]) auto
  next
    case False
    then have "pc - length re < length (layout res (b + length re) (i + 1))" using Cons.prems by simp
    then obtain k p where "k < length res" "p < length (res ! k)"
      "(b + length re) + (pc - length re) = bases res (b + length re) ! k + p"
      using Cons.IH by blast
    then show ?thesis using False by (intro exI [of _ "Suc k"] exI [of _ p]) auto
  qed
qed simp

section \<open>Running a set\<close>

text \<open>Which patterns are marked as hit, and how many.\<close>

definition hits_ok :: "nat \<Rightarrow> (nat \<Rightarrow> bool) \<Rightarrow> bool list \<times> nat \<Rightarrow> bool" where
  "hits_ok np H st \<longleftrightarrow> length (fst st) = np \<and> (\<forall>k < np. fst st ! k = H k) \<and> snd st = length (filter (\<lambda>b. b) (fst st))"

lemma count_hit:
  "k < length hit \<Longrightarrow> \<not> hit ! k \<Longrightarrow> length (filter (\<lambda>b. b) (hit[k := True])) = length (filter (\<lambda>b. b) hit) + 1"
proof -
  assume k: "k < length hit" "\<not> hit ! k"
  let ?c = "\<lambda>bs. length (filter (\<lambda>b. b) bs)"
  have "?c hit = ?c (take k hit @ hit ! k # drop (Suc k) hit)" using id_take_nth_drop [OF k(1)] by simp
  moreover have "?c (hit[k := True]) = ?c (take k hit @ True # drop (Suc k) hit)"
    by (simp only: upd_conv_take_nth_drop [OF k(1)])
  ultimately show ?thesis using k(2) by simp
qed

lemma hits_ok_mark:
  assumes "hits_ok np H (hit, nhit)" and "k < np"
  shows "hits_ok np (\<lambda>j. H j \<or> j = k) (if hit ! k then (hit, nhit) else (hit[k := True], nhit + 1))"
  using assms count_hit [of k hit] by (auto simp: hits_ok_def nth_list_update)

lemma hits_full:
  assumes "hits_ok np H (hit, nhit)" and "nhit = np" and "k < np"
  shows "H k"
proof -
  have hit: "length hit = np" "\<forall>k < np. hit ! k = H k" "nhit = length (filter (\<lambda>b. b) hit)"
    using assms(1) unfolding hits_ok_def by simp_all
  have len: "length (filter (\<lambda>b. b) hit) = length hit" using hit(1,3) assms(2) by metis
  have "\<forall>b \<in> set hit. b"
  proof (rule ccontr)
    assume "\<not> (\<forall>b \<in> set hit. b)"
    then have "length (filter (\<lambda>b. b) hit) < length hit" using length_filter_less [of _ hit "\<lambda>b. b"] by blast
    then show False using len by simp
  qed
  then have "hit ! k" using nth_mem [of k hit] assms(3) hit(1) by blast
  then show ?thesis using assms(3) hit(2) by simp
qed

definition ids_ok :: "inst list \<Rightarrow> nat \<Rightarrow> bool" where
  "ids_ok P np \<longleftrightarrow> (\<forall>pc < length P. \<forall>k. P ! pc = IMatchN k \<longrightarrow> k < np)"

lemma set_threads_round:
  assumes "targets_ok P" and "ids_ok P np" and "set pcs \<subseteq> {..<length P}" and "stands_for P gen nlist seen T"
    and "eps_rel P (Suc pos) (length w) `` T \<subseteq> T" and "hits_ok np H st"
  shows "\<exists>nlist' seen' hit nhit. set_threads P w pos gen pcs nlist seen st = Some (nlist', seen', hit, nhit)
    \<and> stands_for P gen nlist' seen' (T \<union> (eps_rel P (Suc pos) (length w))\<^sup>* `` read_from P w pos (set pcs))
    \<and> hits_ok np (\<lambda>k. H k \<or> (\<exists>pc \<in> set pcs. P ! pc = IMatchN k)) (hit, nhit)"
  using assms(3-6)
proof (induction pcs arbitrary: nlist seen T H st)
  case Nil
  obtain hit nhit where "st = (hit, nhit)" by force
  then show ?case using Nil by (auto simp: read_from_def)
next
  case (Cons pc pcs)
  let ?E = "eps_rel P (Suc pos) (length w)"
  obtain hit nhit where st: "st = (hit, nhit)" by force
  have pc: "pc < length P" using Cons.prems(1) by simp
  show ?case
  proof (cases "\<exists>k. P ! pc = IMatchN k")
    case True
    then obtain k where k: "P ! pc = IMatchN k" by blast
    then have kn: "k < np" "length hit = np" using assms(2) pc Cons.prems(4) by (auto simp: ids_ok_def hits_ok_def st)
    have "read_from P w pos (set (pc # pcs)) = read_from P w pos (set pcs)" using k by (auto simp: read_from_def reads_def)
    moreover have "(\<lambda>j. (H j \<or> j = k) \<or> (\<exists>pc \<in> set pcs. P ! pc = IMatchN j)) = (\<lambda>j. H j \<or> (\<exists>pc \<in> set (pc # pcs). P ! pc = IMatchN j))"
      using k by auto
    ultimately show ?thesis
      using Cons.IH [OF _ Cons.prems(2,3) hits_ok_mark [OF Cons.prems(4) [unfolded st] kn(1)]] Cons.prems(1) pc k kn
      by (simp add: st)
  next
    case False
    have H: "(\<lambda>j. H j \<or> (\<exists>pc \<in> set pcs. P ! pc = IMatchN j)) = (\<lambda>j. H j \<or> (\<exists>pc \<in> set (pc # pcs). P ! pc = IMatchN j))"
      using False by auto
    show ?thesis
    proof (cases "reads (P ! pc) w pos")
      case True
      then have "pc + 1 < length P" using reads_in_range [OF assms(1) pc] by simp
      then obtain l' s' where r: "add_thread P gen (Suc pos) (length w) [pc + 1] nlist seen = Some (l', s')"
        "stands_for P gen l' s' (T \<union> ?E\<^sup>* `` {pc + 1})" "?E `` (T \<union> ?E\<^sup>* `` {pc + 1}) \<subseteq> T \<union> ?E\<^sup>* `` {pc + 1}"
        using add_thread_extends [OF assms(1) Cons.prems(2,3)] by metis
      have "T \<union> ?E\<^sup>* `` read_from P w pos (set (pc # pcs)) = T \<union> ?E\<^sup>* `` {pc + 1} \<union> ?E\<^sup>* `` read_from P w pos (set pcs)"
        using True pc by (auto simp: read_from_def)
      then show ?thesis
        using Cons.IH [OF _ r(2,3) Cons.prems(4)] Cons.prems(1) r(1) True False pc unfolding H [symmetric]
        by (auto simp: st split: inst.split)
    next
      case no: False
      then have "read_from P w pos (set (pc # pcs)) = read_from P w pos (set pcs)" by (auto simp: read_from_def)
      then show ?thesis
        using Cons.IH [OF _ Cons.prems(2-4)] Cons.prems(1) no False pc unfolding H [symmetric]
        by (auto simp: st split: inst.split)
    qed
  qed
qed

definition hits_upto :: "inst list \<Rightarrow> uchar list \<Rightarrow> nat set \<Rightarrow> nat set \<Rightarrow> nat \<Rightarrow> bool" where
  "hits_upto P w S is k \<longleftrightarrow> (\<exists>i \<in> is. accepting P (IMatchN k) (reach P w S i))"

lemma set_round:
  assumes "targets_ok P" and "ids_ok P np" and "S \<subseteq> {..<length P}" and "stands_for P gen clist seen (reach P w S pos)"
    and "hits_ok np H st"
  shows "\<exists>nlist seen' hit nhit. set_threads P w pos (Suc gen) clist [] seen st = Some (nlist, seen', hit, nhit)
    \<and> stands_for P (Suc gen) nlist seen' (reach P w S (Suc pos))
    \<and> hits_ok np (\<lambda>k. H k \<or> accepting P (IMatchN k) (reach P w S pos)) (hit, nhit)"
proof -
  have c: "set clist \<subseteq> {..<length P}"
    using reach_in_range [OF assms(1,3), of w pos] assms(4) by (auto simp: stands_for_def)
  have m: "(\<exists>pc \<in> set clist. P ! pc = IMatchN k) = accepting P (IMatchN k) (reach P w S pos)" for k
    using assms(4) by (auto simp: stands_for_def accepting_def waits_def)
  show ?thesis
    using set_threads_round [OF assms(1,2) c stands_for_fresh [OF assms(4)] reach_closed assms(5), of w pos]
    unfolding waiting_sets(1) [OF assms(4)] reach_Suc m Un_empty_left .
qed

lemma hits_ok_cong: "hits_ok np H st \<Longrightarrow> (\<And>k. k < np \<Longrightarrow> H k = H' k) \<Longrightarrow> hits_ok np H' st"
  by (simp add: hits_ok_def)

lemma set_scan_spec:
  assumes "targets_ok P" and "ids_ok P np" and "S \<subseteq> {..<length P}" and "stands_for P gen clist seen (reach P w S pos)"
    and "pos + k = length w" and "gen + k + 1 < 2 ^ 32" and "hits_ok np H st"
  shows "\<exists>hit n'. set_scan P w np k pos gen clist seen st = Some hit
    \<and> hits_ok np (\<lambda>j. H j \<or> hits_upto P w S {pos..length w} j) (hit, n')"
  using assms(4-7)
proof (induction k arbitrary: pos gen clist seen H st)
  case 0
  have gen: "next_gen gen = Suc gen" and pos: "{pos..length w} = {pos}" using 0 next_gen_small by simp_all
  show ?case
    using set_round [OF assms(1-3) 0(1) 0(4)] by (subst set_scan.simps) (auto simp: Let_def gen pos hits_upto_def)
next
  case (Suc k)
  have gen: "next_gen gen = Suc gen" using Suc.prems(3) next_gen_small by simp
  have pos: "{pos..length w} = insert pos {Suc pos..length w}" using Suc.prems(2) by auto
  let ?H = "\<lambda>k. H k \<or> accepting P (IMatchN k) (reach P w S pos)"
  obtain nlist seen' hit nhit where r: "set_threads P w pos (Suc gen) clist [] seen st = Some (nlist, seen', hit, nhit)"
    "stands_for P (Suc gen) nlist seen' (reach P w S (Suc pos))" "hits_ok np ?H (hit, nhit)"
    using set_round [OF assms(1-3) Suc.prems(1,4)] by blast
  show ?case
  proof (cases "nhit = np")
    case True
    have "?H j" if "j < np" for j by (rule hits_full [OF r(3) True that])
    then have "hits_ok np (\<lambda>j. H j \<or> hits_upto P w S {pos..length w} j) (hit, nhit)"
      using r(3) by (auto simp: pos hits_upto_def intro: hits_ok_cong)
    then show ?thesis using r(1) True by (subst set_scan.simps) (auto simp: Let_def gen)
  next
    case False
    have H: "(\<lambda>j. ?H j \<or> hits_upto P w S {Suc pos..length w} j) = (\<lambda>j. H j \<or> hits_upto P w S {pos..length w} j)"
      by (auto simp: pos hits_upto_def)
    have "\<exists>hit' n'. set_scan P w np k (Suc pos) (Suc gen) nlist seen' (hit, nhit) = Some hit'
        \<and> hits_ok np (\<lambda>j. H j \<or> hits_upto P w S {pos..length w} j) (hit', n')"
      using Suc.IH [OF r(2) _ _ r(3), unfolded H] Suc.prems(2,3) by simp
    then show ?thesis using r(1) False by (subst set_scan.simps) (simp add: Let_def gen)
  qed
qed

lemma add_starts_spec:
  assumes "targets_ok P" and "set sts \<subseteq> {..<length P}" and "stands_for P 1 lst seen T" and "eps_rel P 0 n `` T \<subseteq> T"
  shows "\<exists>lst' seen'. add_starts P n sts lst seen = Some (lst', seen') \<and> stands_for P 1 lst' seen' (T \<union> (eps_rel P 0 n)\<^sup>* `` set sts)"
  using assms(2-4)
proof (induction sts arbitrary: lst seen T)
  case (Cons a sts)
  obtain l' s' where r: "add_thread P 1 0 n [a] lst seen = Some (l', s')" "stands_for P 1 l' s' (T \<union> (eps_rel P 0 n)\<^sup>* `` {a})"
    "eps_rel P 0 n `` (T \<union> (eps_rel P 0 n)\<^sup>* `` {a}) \<subseteq> T \<union> (eps_rel P 0 n)\<^sup>* `` {a}"
    using add_thread_extends [OF assms(1) Cons.prems(2,3), of a] Cons.prems(1) by auto
  have "T \<union> (eps_rel P 0 n)\<^sup>* `` {a} \<union> (eps_rel P 0 n)\<^sup>* `` set sts = T \<union> (eps_rel P 0 n)\<^sup>* `` set (a # sts)" by auto
  then show ?case using Cons.IH [OF _ r(2,3)] Cons.prems(1) r(1) by simp
qed simp

lemma filter_hits: "hits_ok np H (hit, n') \<Longrightarrow> filter (\<lambda>i. hit ! i) [0..<length hit] = filter H [0..<np]"
  by (auto simp: hits_ok_def intro: filter_cong)

lemma set_matches_reach:
  assumes "targets_ok P" and "ids_ok P np" and "set sts \<subseteq> {..<length P}" and "length (utf8_chars txt) + 2 < 2 ^ 32"
    and rs: "rs = \<lparr>set_prog = P, set_starts = sts, npat = np\<rparr>"
  shows "set_matches rs txt = Some (filter (hits_upto P (utf8_chars txt) (set sts) {0..length (utf8_chars txt)}) [0..<np])"
proof (cases "np = 0")
  case True
  then show ?thesis by (simp add: rs set_matches_def)
next
  case False
  let ?w = "utf8_chars txt"
  obtain clist seen where a: "add_starts P (length ?w) sts [] (replicate (length P) 0) = Some (clist, seen)"
    "stands_for P 1 clist seen (reach P ?w (set sts) 0)"
    using add_starts_spec [OF assms(1,3) stands_for_start, of "length ?w"] by (auto simp: reach_0)
  have h: "hits_ok np (\<lambda>k. False) (replicate np False, 0)" by (simp add: hits_ok_def)
  obtain hit n' where "set_scan P ?w np (length ?w) 0 1 clist seen (replicate np False, 0) = Some hit"
    "hits_ok np (hits_upto P ?w (set sts) {0..length ?w}) (hit, n')"
    using set_scan_spec [OF assms(1-3) a(2) _ _ h, of "length ?w"] assms(4) by auto
  then show ?thesis using a(1) False filter_hits by (auto simp: rs set_matches_def Let_def)
qed

section \<open>The set and its patterns\<close>

definition compiled :: "string \<Rightarrow> inst list \<Rightarrow> bool" where
  "compiled pat re \<longleftrightarrow> regex_new pat = Some (Inr re)"

lemma compiled_ok:
  assumes "compiled pat re"
  shows "targets_ok re" "re \<noteq> []" "p < length re \<Longrightarrow> re ! p \<noteq> IMatchN k"
proof -
  obtain a where a: "re = code (AConcat [AStar AAny, a]) 0 @ [IMatch]"
    using assms regex_new_cases unfolding compiled_def by metis
  show "targets_ok re" "re \<noteq> []" using targets_ok_program by (simp_all only: a) simp
  have "IMatchN k \<notin> set re"
    using frag_okD(3) [OF frag_ok_code, of k "AConcat [AStar AAny, a]" 0] by (simp only: a) simp
  then show "p < length re \<Longrightarrow> re ! p \<noteq> IMatchN k" by (metis nth_mem)
qed

lemma relocate_match: "(\<And>j. I \<noteq> IMatchN j) \<Longrightarrow> relocate I base i = IMatchN k \<longleftrightarrow> I = IMatch \<and> k = i"
  by (cases I) (auto simp: relocate_def)

lemma target_relocate:
  "target_ok len p I \<Longrightarrow> target_ok (base + len) (base + p) (relocate I base i)"
  by (cases I) (auto simp: target_ok_def relocate_def)

lemma layout_ok:
  assumes "list_all2 compiled pats res"
  shows "targets_ok (layout res 0 0)" "ids_ok (layout res 0 0) (length pats)"
    "set (bases res 0) \<subseteq> {..<length (layout res 0 0)}"
proof -
  let ?P = "layout res 0 0"
  have len: "length res = length pats" using assms list_all2_lengthD by metis
  have re: "compiled (pats ! k) (res ! k)" if "k < length res" for k using assms that len by (simp add: list_all2_conv_all_nth)
  have rl: "relocated ?P (bases res 0 ! k) k (res ! k)" if "k < length res" for k
    using layout_relocated [OF that, of "[]" 0] by simp
  have nth: "\<exists>k p. k < length res \<and> p < length (res ! k) \<and> pc = bases res 0 ! k + p \<and> ?P ! pc = relocate (res ! k ! p) (bases res 0 ! k) k"
    if "pc < length ?P" for pc
    using layout_cover [OF that] rl by (auto simp: relocated_def)
  have "target_ok (length ?P) pc (?P ! pc)" if pc: "pc < length ?P" for pc
  proof -
    obtain k p where kp: "k < length res" "p < length (res ! k)" "pc = bases res 0 ! k + p"
      "?P ! pc = relocate (res ! k ! p) (bases res 0 ! k) k" using nth [OF pc] by blast
    have "target_ok (length (res ! k)) p (res ! k ! p)" using compiled_ok(1) [OF re [OF kp(1)]] kp(2) by (simp add: targets_ok_def)
    from target_ok_mono [OF target_relocate [OF this]] show ?thesis
      using rl [OF kp(1)] kp(3,4) by (simp add: relocated_def)
  qed
  then show "targets_ok ?P" by (simp add: targets_ok_def)
  show "ids_ok ?P (length pats)"
    unfolding ids_ok_def
  proof (intro allI impI)
    fix pc k
    assume pc: "pc < length ?P" "?P ! pc = IMatchN k"
    obtain j p where jp: "j < length res" "p < length (res ! j)" "?P ! pc = relocate (res ! j ! p) (bases res 0 ! j) j"
      using nth [OF pc(1)] by blast
    then have "k = j" using pc(2) relocate_match compiled_ok(3) [OF re [OF jp(1)] jp(2)] by metis
    then show "k < length pats" using jp(1) len by simp
  qed
  show "set (bases res 0) \<subseteq> {..<length ?P}"
  proof
    fix b
    assume "b \<in> set (bases res 0)"
    then obtain k where k: "k < length res" "b = bases res 0 ! k" by (auto simp: in_set_conv_nth)
    then have "b + length (res ! k) \<le> length ?P" "res ! k \<noteq> []"
      using rl compiled_ok(2) [OF re] by (auto simp: relocated_def)
    then show "b \<in> {..<length ?P}" by (cases "res ! k") auto
  qed
qed

lemma reach_union: "reach P w S i = (\<Union>s \<in> S. reach P w {s} i)"
  by (auto simp: reach_def)

lemma layout_accepts:
  assumes "list_all2 compiled pats res" and "k < length pats"
  shows "accepting (layout res 0 0) (IMatchN k) (reach (layout res 0 0) w (set (bases res 0)) j)
    \<longleftrightarrow> accepting (res ! k) IMatch (reach (res ! k) w {0} j)"
proof -
  let ?P = "layout res 0 0"
  have len: "length res = length pats" using assms list_all2_lengthD by metis
  have re: "compiled (pats ! m) (res ! m)" if "m < length res" for m using assms that len by (simp add: list_all2_conv_all_nth)
  have rl: "relocated ?P (bases res 0 ! m) m (res ! m)" if "m < length res" for m
    using layout_relocated [OF that, of "[]" 0] by simp
  have at: "?P ! (bases res 0 ! m + p) = IMatchN k \<longleftrightarrow> m = k \<and> res ! m ! p = IMatch"
    if "m < length res" "p \<in> reach (res ! m) w {0} j" for m p
  proof -
    have p: "p < length (res ! m)" using reach_in_range [OF compiled_ok(1) [OF re [OF that(1)]], of "{0}" w j] compiled_ok(2) [OF re [OF that(1)]] that(2) by auto
    then have "?P ! (bases res 0 ! m + p) = relocate (res ! m ! p) (bases res 0 ! m) m" using rl [OF that(1)] by (simp add: relocated_def)
    then show ?thesis using relocate_match compiled_ok(3) [OF re [OF that(1)] p] by metis
  qed
  have reach: "reach ?P w {bases res 0 ! m} j = (+) (bases res 0 ! m) ` reach (res ! m) w {0} j" if "m < length res" for m
    using relocated_reach [OF rl [OF that] compiled_ok(1,2) [OF re [OF that]]] .
  have "accepting ?P (IMatchN k) (reach ?P w (set (bases res 0)) j)
      \<longleftrightarrow> (\<exists>m < length res. \<exists>p \<in> reach (res ! m) w {0} j. ?P ! (bases res 0 ! m + p) = IMatchN k)"
    using reach unfolding accepting_def reach_union [of ?P w "set (bases res 0)"] by (fastforce simp: in_set_conv_nth)
  also have "\<dots> \<longleftrightarrow> accepting (res ! k) IMatch (reach (res ! k) w {0} j)"
    using at assms(2) len unfolding accepting_def by auto
  finally show ?thesis .
qed

lemma set_new_layout:
  assumes "set_new pats = Some (Inr rs)"
  obtains res where "list_all2 compiled pats res"
    "rs = \<lparr>set_prog = layout res 0 0, set_starts = bases res 0, npat = length pats\<rparr>"
proof -
  obtain r where r: "set_build pats 0 [] [] = Some r" using assms by (auto simp: set_new_def)
  then obtain prog starts where b: "set_build pats 0 [] [] = Some (Inr (prog, starts))"
    "rs = \<lparr>set_prog = prog, set_starts = starts, npat = length pats\<rparr>"
    using assms by (cases r) (auto simp: set_new_def)
  then show ?thesis using set_build_layout [OF b(1)] that by (auto simp: compiled_def [abs_def])
qed

section \<open>Properties\<close>

text \<open>C4: A compiled expression answers, without a panic, whether its pattern is found in the text.  The
  pattern is the one the parser read; found means that some match, in the relational semantics of
  patterns, starts at a position before which there is no line feed (the search prefix skips only
  characters other than a line feed).\<close>

theorem is_match_spec:
  assumes "regex_new pat = Some (Inr prog)" and "length (utf8_chars txt) + 2 < 2 ^ 32"
  shows "\<exists>a. parse_pattern pat = Some (Inr a) \<and> is_match prog txt = Some (found_in a (utf8_chars txt))"
  using assms(1) by (rule regex_new_cases) (use is_match_found assms(2) in blast)

text \<open>C5: A compiled set of expressions reports exactly the patterns that match when compiled alone, in
  ascending order, for any patterns and any text.\<close>

theorem set_matches_agree:
  assumes "set_new pats = Some (Inr rs)" and "length (utf8_chars txt) + 2 < 2 ^ 32"
  shows "\<exists>res. list_all2 (\<lambda>pat re. regex_new pat = Some (Inr re)) pats res
    \<and> set_matches rs txt = Some (filter (\<lambda>k. is_match (res ! k) txt = Some True) [0..<length pats])"
proof -
  let ?w = "utf8_chars txt"
  obtain res where res: "list_all2 compiled pats res"
    and rs: "rs = \<lparr>set_prog = layout res 0 0, set_starts = bases res 0, npat = length pats\<rparr>"
    using set_new_layout [OF assms(1)] by blast
  have "is_match (res ! k) txt = Some (\<exists>i \<le> length ?w. accepting (res ! k) IMatch (reach (res ! k) ?w {0} i))"
    if "k < length pats" for k
    using is_match_reaches [OF compiled_ok(1,2) assms(2)] res that by (metis list_all2_conv_all_nth)
  then have "hits_upto (layout res 0 0) ?w (set (bases res 0)) {0..length ?w} k \<longleftrightarrow> is_match (res ! k) txt = Some True"
    if "k < length pats" for k
    using that layout_accepts [OF res that] by (auto simp: hits_upto_def)
  then have "set_matches rs txt = Some (filter (\<lambda>k. is_match (res ! k) txt = Some True) [0..<length pats])"
    using set_matches_reach [OF layout_ok [OF res] assms(2) rs] by (auto intro: filter_cong)
  then show ?thesis using res unfolding compiled_def [abs_def] by blast
qed

text \<open>C6: Compiling an expression or a set of expressions always returns, with a program or an error.\<close>

theorem regex_new_returns: "(\<exists>r. regex_new pat = Some r) \<and> (\<exists>r. set_new pats = Some r)"
proof -
  have new: "\<exists>r. regex_new p = Some r" for p
    using parse_pattern_returns [of p] by (auto simp: regex_new_def split: sum.split)
  have "\<exists>r. set_build ps i prog starts = Some r" for ps i prog starts
  proof (induction ps arbitrary: i prog starts)
    case (Cons p ps)
    then show ?case using new [of p] by (auto simp: Let_def split: sum.split)
  qed simp
  then show ?thesis using new by (auto simp: set_new_def)
qed


section \<open>Witnesses\<close>

lemma sample_parse: "parse_pattern ''a'' = Some (Inr (AChar ''a''))"
  by (simp add: parse_pattern_def parse_fuel_def eval_nat_numeral bump_def peek_def at_def skip_def eat_def Let_def
      MAX_DEPTH_def)

lemma sample_regex: "regex_new ''a'' = Some (Inr [ISplit 1 3, IAny, IJmp 0, IChar ''a'', IMatch])"
  by (simp add: regex_new_def sample_parse compile_exact MAX_PROG_def del: compile.simps)

lemma sample_length: "length (utf8_chars ''ba'') + 2 < 2 ^ 32"
  by (simp add: is_cont_byte_def)

lemma sample_set:
  "set_new [''a''] = Some (Inr \<lparr>set_prog = map (\<lambda>x. relocate x 0 0) [ISplit 1 3, IAny, IJmp 0, IChar ''a'', IMatch],
     set_starts = [0], npat = 1\<rparr>)"
  by (simp add: set_new_def sample_regex MAX_PROG_def)

theorem is_match_spec_witness:
  "regex_new ''a'' = Some (Inr [ISplit 1 3, IAny, IJmp 0, IChar ''a'', IMatch])
   \<and> is_match [ISplit 1 3, IAny, IJmp 0, IChar ''a'', IMatch] ''ba'' = Some True"
proof -
  have "utf8_chars ''ba'' = [''b'', ''a'']" by (simp add: is_cont_byte_def)
  then have "found_in (AChar ''a'') (utf8_chars ''ba'')"
    by (auto simp: found_in_def newline_def intro!: exI [of _ "1::nat"])
  then show ?thesis
    using is_match_spec [OF sample_regex sample_length] sample_regex by (simp add: sample_parse)
qed

theorem set_matches_agree_witness:
  "\<exists>rs. set_new [''a''] = Some (Inr rs) \<and> (\<exists>hits. set_matches rs ''ba'' = Some hits)"
  using set_matches_agree [OF sample_set sample_length] sample_set by blast


end
