(* ===== verification/Spec2Isabelle.thy ===== *)
theory Spec2Isabelle
  imports BanLaws RegexSet
begin

text \<open>
  A verification of the core of echoIRCd, an IRC daemon in Rust (sources under \<open>src/\<close>).

  \<^bold>\<open>The program.\<close>  One thread owns a \<open>Server\<close> value with all state (users, channels, links, bans) and
  handles one event at a time: a line from a client or a server link, or a timer tick.  A line is
  parsed (\<open>message.rs\<close>), dispatched to a handler, and the handler changes the state and queues lines
  for sockets.  The other threads move bytes.  The model follows that shape: a handler is a function
  from the state to the state, with the lines it queues appended to output buffers in the state.

  \<^bold>\<open>Theories.\<close>
  \<^item> \<open>Prelude\<close>: strings as byte lists, UTF-8 characters, decimal numbers, hash maps as association
    lists with the contract \<open>hash_map\<close>.
  \<^item> \<open>Message\<close> (\<open>message.rs\<close>): parsing and rendering a line; round trip and tag filtering.
  \<^item> \<open>Glob\<close> (\<open>channels.rs\<close>, \<open>users.rs\<close>): the wildcard matcher against a declarative semantics, through
    the locale \<open>glob_alphabet\<close> for its byte and character versions; mask normalisation and name checks.
  \<^item> \<open>Civil\<close> (\<open>server.rs\<close>): calendar conversion and its round trip.
  \<^item> \<open>Member\<close> (\<open>channels.rs\<close>, \<open>modules/customprefix.rs\<close>): prefix bits, ranks, custom prefixes.
  \<^item> \<open>ChanModes\<close> (\<open>channels.rs\<close>): channel modes and channel records.
  \<^item> \<open>I18n\<close> (\<open>i18n.rs\<close>): the message catalog.
  \<^item> \<open>State\<close> (\<open>server.rs\<close>, \<open>users.rs\<close>): the state record and output primitives, with the contract
    \<open>output_op\<close>: output changes only buffers.
  \<^item> \<open>Bans\<close>, \<open>Links\<close>, \<open>Channels\<close> (\<open>channels.rs\<close>, \<open>link.rs\<close>, several \<open>modules\<close>): ranks, extbans, link
    propagation, and every channel operation.
  \<^item> \<open>Membership\<close>: the invariant that relates the two records of a membership.
  \<^item> \<open>Indexes\<close>: counts and reverse indexes, with the contracts \<open>counter\<close> and \<open>reverse_index\<close>.
  \<^item> \<open>Users\<close> (\<open>server.rs\<close>, \<open>users.rs\<close>, \<open>watch.rs\<close>, \<open>connguard.rs\<close>, \<open>modules/connclass.rs\<close>): connections are
    filed, registered, renamed and removed; the lists and counters that follow them.
  \<^item> \<open>UserIndexes\<close>, \<open>Lifecycle\<close>, \<open>UserLaws\<close>: the invariant \<open>user_inv\<close> of the derived tables, the
    transition system \<open>step\<close> with its reachable states, the contract \<open>invariant\<close>, and what follows.
  \<^item> \<open>Duration\<close> (\<open>xline.rs\<close>): durations as text.
  \<^item> \<open>Command\<close> (\<open>command.rs\<close>, \<open>database/mod.rs\<close>): what handlers share: outcomes, the operator gate and the
    queues of the persistence layer.
  \<^item> \<open>XLine\<close>, \<open>XLineLaws\<close>, \<open>BanLaws\<close> (\<open>xline.rs\<close>, \<open>coremods/core_oper.rs\<close>, \<open>link.rs\<close>): server bans, the
    commands and link lines that set and lift them, their store; enforcement, restart and burst.
  \<^item> \<open>Regex\<close> (\<open>regex.rs\<close>): the parser, the compiler to a thread program and the matcher.
  \<^item> \<open>RegexCompile\<close>, \<open>RegexMatch\<close>, \<open>RegexParse\<close>, \<open>RegexSet\<close>: a pattern as a relation between positions; the
    emitted code runs exactly that relation; the matcher visits exactly the reachable threads; the
    parser returns well-formed patterns; a set of patterns agrees with its members.

  \<^bold>\<open>Bounds.\<close>  \<open>join\<close> calls itself for redirects; the model gives it ten nested calls, and
  \<open>join_returns\<close> shows they always suffice.  All other loops are structural or have a termination
  proof; the search for a network id may run for ever when all ids are held, and
  \<open>next_uuid_returns\<close> shows that it ends while fewer than 26^6 are.  The parser of regular
  expressions takes fuel, six units per character and seven more, and \<open>regex_new_returns\<close> shows that
  it suffices.  The matcher counts positions in 32 bits, so its theorems speak of shorter texts.

  \<^bold>\<open>Not modelled.\<close>  Sockets, TLS, threads, disk and DNS; calls into modules outside the development are
  fields of the record \<open>env\<close>, so the theorems hold whatever they answer.
\<close>

end
